theory Spec2Isabelle
  imports Main
begin

section \<open>Errors and rendering of values\<close>

text \<open>
  Every \<^verbatim>\<open>throw new Error(...)\<close> of the sources is a constructor of \<open>error\<close>, named after the
  error kinds of the specification. \<open>TypeError\<close> is what JavaScript raises when a property of
  \<^verbatim>\<open>undefined\<close> is read (the sources assert presence with \<^verbatim>\<open>!\<close>, which checks nothing at
  run time). \<open>ParseError\<close> stands for whatever the parser raises.
\<close>

datatype error =
  ParseError
  | UnexpectedNodeType "string option"
  | UnexpectedStatementType "string option"
  | TypeError
  | DuplicateDefinition "string option"
  | UndeclaredName "string option"
  | NotAnLvalue
  | AssignToConstant "string option"
  | NoAssignmentTarget
  | StackUnderflow

text \<open>
  An optional attribute is an \<open>option\<close>; \<open>None\<close> is \<^verbatim>\<open>undefined\<close>. A template literal
  renders \<^verbatim>\<open>undefined\<close> as the text "undefined" and a number in decimal.
\<close>

definition str :: "string option \<Rightarrow> string" where
  "str v = (case v of None \<Rightarrow> ''undefined'' | Some s \<Rightarrow> s)"

definition digitChar :: "nat \<Rightarrow> char" where
  "digitChar d = ''0123456789'' ! d"

fun showNat :: "nat \<Rightarrow> string" where
  "showNat n = (if n < 10 then [digitChar n] else showNat (n div 10) @ [digitChar (n mod 10)])"

declare showNat.simps [simp del]

definition strNat :: "nat option \<Rightarrow> string" where
  "strNat v = (case v of None \<Rightarrow> ''undefined'' | Some n \<Rightarrow> showNat n)"

text \<open>\<^verbatim>\<open>Array.prototype.join\<close>: an \<^verbatim>\<open>undefined\<close> element is rendered as the empty string.\<close>

fun join :: "string \<Rightarrow> string option list \<Rightarrow> string" where
  "join sep [] = []"
| "join sep [x] = (case x of None \<Rightarrow> [] | Some s \<Rightarrow> s)"
| "join sep (x # y # ys) = (case x of None \<Rightarrow> [] | Some s \<Rightarrow> s) @ sep @ join sep (y # ys)"

text \<open>
  \<^verbatim>\<open>String.prototype.substring\<close>: both indices are clamped to the string and swapped when
  the first is the larger.
\<close>

definition substring :: "string \<Rightarrow> int \<Rightarrow> int \<Rightarrow> string" where
  "substring s indexStart indexEnd =
     (let len = int (length s);
          a = min (max indexStart 0) len;
          b = min (max indexEnd 0) len;
          lo = min a b;
          hi = max a b
      in take (nat (hi - lo)) (drop (nat lo) s))"

definition unquote :: "string \<Rightarrow> string" where
  "unquote input = substring input 1 (int (length input) - 1)"

definition CRLF :: string where
  "CRLF = [CHR 0x0D, CHR 0x0A]"

section \<open>Symbols and symbol tables\<close>

datatype SymbolType = Variable | Constant

record ISymbol =
  symbolName :: "string option"
  symbolType :: SymbolType
  position :: nat
  isGlobal :: bool

text \<open>
  Modelled from the spec: the class \<^verbatim>\<open>SymbolTable\<close> (symbol-table.ts is not among the
  sources), after section 4.1. A table is an object that \<^verbatim>\<open>define\<close> (here \<open>defineSymbol\<close>) mutates while nodes and
  child tables hold references to it, so the symbols of all tables live in a store indexed by
  table identity; the parent pointer is fixed at construction and is part of the reference.
\<close>

datatype SymbolTable = SymbolTable (tableId: nat) (parent: "SymbolTable option")

type_synonym tableStore = "nat \<Rightarrow> (string option \<times> ISymbol) list"

definition isDefinedLocally :: "tableStore \<Rightarrow> SymbolTable \<Rightarrow> string option \<Rightarrow> bool" where
  "isDefinedLocally ts t nm = (map_of (ts (tableId t)) nm \<noteq> None)"

definition getNumSymbols :: "tableStore \<Rightarrow> SymbolTable \<Rightarrow> nat" where
  "getNumSymbols ts t = length (ts (tableId t))"

definition defineSymbol :: "tableStore \<Rightarrow> SymbolTable \<Rightarrow> string option \<Rightarrow> SymbolType
    \<Rightarrow> error + tableStore \<times> ISymbol" where
  "defineSymbol ts t nm kind =
     (if isDefinedLocally ts t nm then Inl (DuplicateDefinition nm)
      else
        (let sy = \<lparr>symbolName = nm, symbolType = kind,
                    position = getNumSymbols ts t + 1, isGlobal = (parent t = None)\<rparr>
         in Inr (ts(tableId t := ts (tableId t) @ [(nm, sy)]), sy)))"

fun get :: "tableStore \<Rightarrow> SymbolTable \<Rightarrow> string option \<Rightarrow> ISymbol option" where
  "get ts (SymbolTable i p) nm =
     (case map_of (ts i) nm of
        Some sy \<Rightarrow> Some sy
      | None \<Rightarrow> (case p of None \<Rightarrow> None | Some t \<Rightarrow> get ts t nm))"

section \<open>The abstract syntax tree\<close>

text \<open>
  \<^verbatim>\<open>ASTNode\<close> is one open record: a discriminator and optional attributes. The arrays that the
  generator reverses in place (\<^verbatim>\<open>params\<close>, \<^verbatim>\<open>symbols\<close>) are held by reference: the node
  stores an address and the array lives in a store of the generator state. Attribute values
  that are only ever interpolated into text (\<^verbatim>\<open>value\<close>, \<^verbatim>\<open>args\<close>) are kept as that text.
  The annotation \<^verbatim>\<open>controlStatementId\<close> is written on the node by a visit and read by that
  same visit only; the generator below hands it from the pre hook to the post hook, and the
  node type has no field for it. The sub-structures of a node are disjoint (the tree is
  single-rooted and acyclic).
\<close>

datatype node = Node
  (nodeType: string)
  (children: "node list option")
  (name: "string option")
  (nodeValue: "string option")
  (opcode: "string option")
  (args: "string list option")
  (numItemsAdded: "nat option")
  (numItemsRemoved: "nat option")
  (params: "nat option")
  (body: "node option")
  (initializer: "node option")
  (symbol: "ISymbol option")
  (symbols: "nat option")
  (scope: "SymbolTable option")
  (ifBlock: "node option")
  (elseBlock: "node option")
  (functionArgs: "node list option")
  (assignee: "node option")

definition emptyNode :: "string \<Rightarrow> node" where
  "emptyNode t =
     Node t None None None None None None None None None None None None None None None None None"

fun setChildren :: "node list option \<Rightarrow> node \<Rightarrow> node" where
  "setChildren v (Node t c n va oc ar ia ir p b i sy sys sc ib eb fa asg) =
     Node t v n va oc ar ia ir p b i sy sys sc ib eb fa asg"

fun setName :: "string option \<Rightarrow> node \<Rightarrow> node" where
  "setName v (Node t c n va oc ar ia ir p b i sy sys sc ib eb fa asg) =
     Node t c v va oc ar ia ir p b i sy sys sc ib eb fa asg"

fun setValue :: "string option \<Rightarrow> node \<Rightarrow> node" where
  "setValue v (Node t c n va oc ar ia ir p b i sy sys sc ib eb fa asg) =
     Node t c n v oc ar ia ir p b i sy sys sc ib eb fa asg"

fun setOpcode :: "string option \<Rightarrow> node \<Rightarrow> node" where
  "setOpcode v (Node t c n va oc ar ia ir p b i sy sys sc ib eb fa asg) =
     Node t c n va v ar ia ir p b i sy sys sc ib eb fa asg"

fun setParams :: "nat option \<Rightarrow> node \<Rightarrow> node" where
  "setParams v (Node t c n va oc ar ia ir p b i sy sys sc ib eb fa asg) =
     Node t c n va oc ar ia ir v b i sy sys sc ib eb fa asg"

fun setBody :: "node option \<Rightarrow> node \<Rightarrow> node" where
  "setBody v (Node t c n va oc ar ia ir p b i sy sys sc ib eb fa asg) =
     Node t c n va oc ar ia ir p v i sy sys sc ib eb fa asg"

fun setSymbol :: "ISymbol option \<Rightarrow> node \<Rightarrow> node" where
  "setSymbol v (Node t c n va oc ar ia ir p b i sy sys sc ib eb fa asg) =
     Node t c n va oc ar ia ir p b i v sys sc ib eb fa asg"

fun setScope :: "SymbolTable option \<Rightarrow> node \<Rightarrow> node" where
  "setScope v (Node t c n va oc ar ia ir p b i sy sys sc ib eb fa asg) =
     Node t c n va oc ar ia ir p b i sy sys v ib eb fa asg"

fun setIfBlock :: "node option \<Rightarrow> node \<Rightarrow> node" where
  "setIfBlock v (Node t c n va oc ar ia ir p b i sy sys sc ib eb fa asg) =
     Node t c n va oc ar ia ir p b i sy sys sc v eb fa asg"

fun setElseBlock :: "node option \<Rightarrow> node \<Rightarrow> node" where
  "setElseBlock v (Node t c n va oc ar ia ir p b i sy sys sc ib eb fa asg) =
     Node t c n va oc ar ia ir p b i sy sys sc ib v fa asg"

fun setAssignee :: "node option \<Rightarrow> node \<Rightarrow> node" where
  "setAssignee v (Node t c n va oc ar ia ir p b i sy sys sc ib eb fa asg) =
     Node t c n va oc ar ia ir p b i sy sys sc ib eb fa v"

lemma size_children [termination_simp]:
  "children n = Some cs \<Longrightarrow> size_list size cs < size n"
  by (cases n) simp

lemma size_functionArgs [termination_simp]:
  "functionArgs n = Some cs \<Longrightarrow> size_list size cs < size n"
  by (cases n) simp

lemma size_body [termination_simp]: "body n = Some b \<Longrightarrow> size b < size n"
  by (cases n) simp

lemma size_initializer [termination_simp]: "initializer n = Some b \<Longrightarrow> size b < size n"
  by (cases n) simp

lemma size_ifBlock [termination_simp]: "ifBlock n = Some b \<Longrightarrow> size b < size n"
  by (cases n) simp

lemma size_elseBlock [termination_simp]: "elseBlock n = Some b \<Longrightarrow> size b < size n"
  by (cases n) simp

lemma size_assignee [termination_simp]: "assignee n = Some b \<Longrightarrow> size b < size n"
  by (cases n) simp

section \<open>The code emitter\<close>

text \<open>
  Modelled from the spec: the class behind \<^verbatim>\<open>ICodeEmitter\<close> (code-emitter.ts is not among
  the sources), after section 4.3. The layout of comments in the output text is left to the
  implementation there, so the emitter's output is kept as the list of lines it was asked
  for: an instruction with its optional comment, a label with its optional comment, or a
  section break with its optional title.
\<close>

datatype line =
  Instr string "string option"
  | Label string "string option"
  | Section "string option"

record CodeEmitter =
  outputLines :: "line list"
  stackSize :: nat

definition add :: "string \<Rightarrow> nat \<Rightarrow> nat \<Rightarrow> string option \<Rightarrow> CodeEmitter
    \<Rightarrow> error + CodeEmitter" where
  "add text pushed popped comment e =
     (if stackSize e < popped then Inl StackUnderflow
      else Inr (e\<lparr>outputLines := outputLines e @ [Instr text comment],
                   stackSize := stackSize e - popped + pushed\<rparr>))"

definition label :: "string \<Rightarrow> string option \<Rightarrow> CodeEmitter \<Rightarrow> CodeEmitter" where
  "label nm comment e = e\<lparr>outputLines := outputLines e @ [Label nm comment]\<rparr>"

definition addSection :: "string option \<Rightarrow> CodeEmitter \<Rightarrow> CodeEmitter" where
  "addSection title e = e\<lparr>outputLines := outputLines e @ [Section title]\<rparr>"

definition resetStack :: "CodeEmitter \<Rightarrow> CodeEmitter" where
  "resetStack e = e\<lparr>stackSize := 0\<rparr>"

definition popAll :: "CodeEmitter \<Rightarrow> CodeEmitter" where
  "popAll e = e\<lparr>outputLines := outputLines e @ replicate (stackSize e) (Instr ''pop'' None),
                 stackSize := 0\<rparr>"

section \<open>The code generator (src/code-generator.ts)\<close>

text \<open>
  The state of a \<^verbatim>\<open>CodeGenerator\<close>: its four private fields, the emitter it owns, and the
  part of the heap it reads and writes: the \<^verbatim>\<open>params\<close> arrays and the \<^verbatim>\<open>symbols\<close> arrays
  of the nodes (by address) and the symbol tables (by identity). \<open>functionNodes\<close> is the field
  \<^verbatim>\<open>functions\<close>.
\<close>

record CodeGenerator =
  controlStatementId :: nat
  functionNodes :: "node list"
  inFunction :: bool
  curFunction :: "node option"
  codeEmitter :: CodeEmitter
  paramArrays :: "nat \<Rightarrow> string list"
  symbolArrays :: "nat \<Rightarrow> ISymbol list"
  tables :: tableStore

text \<open>Statements in sequence; the first one that throws ends the sequence.\<close>

fun seq :: "('s \<Rightarrow> error + 's) list \<Rightarrow> 's \<Rightarrow> error + 's" where
  "seq [] s = Inr s"
| "seq (step # steps) s = (case step s of Inl e \<Rightarrow> Inl e | Inr s' \<Rightarrow> seq steps s')"

definition emit :: "string \<Rightarrow> nat \<Rightarrow> nat \<Rightarrow> string option \<Rightarrow> CodeGenerator
    \<Rightarrow> error + CodeGenerator" where
  "emit text pushed popped comment s =
     (case add text pushed popped comment (codeEmitter s) of
        Inl e \<Rightarrow> Inl e
      | Inr em \<Rightarrow> Inr (s\<lparr>codeEmitter := em\<rparr>))"

definition emitter :: "(CodeEmitter \<Rightarrow> CodeEmitter) \<Rightarrow> CodeGenerator \<Rightarrow> error + CodeGenerator" where
  "emitter f s = Inr (s\<lparr>codeEmitter := f (codeEmitter s)\<rparr>)"

subsection \<open>Visitor hooks that do not re-enter the walk\<close>

definition numberPost :: "node \<Rightarrow> CodeGenerator \<Rightarrow> error + CodeGenerator" where
  "numberPost node = emit (''int '' @ str (nodeValue node)) 1 0 None"

definition stringLiteralPost :: "node \<Rightarrow> CodeGenerator \<Rightarrow> error + CodeGenerator" where
  "stringLiteralPost node =
     emit (''byte '' @ [CHR 0x22] @ str (nodeValue node) @ [CHR 0x22]) 1 0 None"

definition operationPost :: "node \<Rightarrow> CodeGenerator \<Rightarrow> error + CodeGenerator" where
  "operationPost node =
     (let output = str (opcode node);
          output = (case args node of
                      None \<Rightarrow> output
                    | Some as \<Rightarrow> output @ '' '' @ join '' '' (map Some as))
      in emit output
           (case numItemsAdded node of Some a \<Rightarrow> a | None \<Rightarrow> 1)
           (case numItemsRemoved node of Some r \<Rightarrow> r | None \<Rightarrow> 2) None)"

definition returnStatementPost :: "node \<Rightarrow> CodeGenerator \<Rightarrow> error + CodeGenerator" where
  "returnStatementPost node s =
     (if inFunction s then
        (case curFunction s of
           None \<Rightarrow> Inl TypeError
         | Some f \<Rightarrow> emit (''b '' @ str (name f) @ ''-cleanup'') 0 0 None s)
      else emit ''return'' 0 0 None s)"

definition accessVariablePost :: "node \<Rightarrow> CodeGenerator \<Rightarrow> error + CodeGenerator" where
  "accessVariablePost node s =
     (case symbol node of
        None \<Rightarrow> Inl TypeError
      | Some sy \<Rightarrow>
          if isGlobal sy then emit (''load '' @ showNat (position sy)) 1 0 None s
          else seq [emit ''load 0'' 1 0 None,
                    emit (''int '' @ showNat (position sy)) 1 0 None,
                    emit ''+'' 2 1 None,
                    emit ''loads'' 1 1 None] s)"

text \<open>
  The store sequence of one assignment target; the source writes it out twice, once for
  \<^verbatim>\<open>node.symbol\<close> and once in the loop over \<^verbatim>\<open>node.symbols\<close>.
\<close>

definition storeSymbol :: "ISymbol \<Rightarrow> CodeGenerator \<Rightarrow> error + CodeGenerator" where
  "storeSymbol sy =
     (if \<not> isGlobal sy then
        seq [emit (''int '' @ showNat (position sy)) 1 0 None,
             emit ''load 0'' 1 0 None,
             emit ''+'' 2 1 None,
             emit ''dig 1'' 1 0 None,
             emit ''stores'' 0 2 None]
      else
        seq [emit ''dup'' 1 0 None,
             emit (''store '' @ showNat (position sy)) 0 1 None])"

definition assignmentStatementPost :: "node \<Rightarrow> CodeGenerator \<Rightarrow> error + CodeGenerator" where
  "assignmentStatementPost node s =
     (case symbol node of
        Some sy \<Rightarrow> storeSymbol sy s
      | None \<Rightarrow>
          (case symbols node of
             Some a \<Rightarrow>
               (let s = s\<lparr>symbolArrays := (symbolArrays s)(a := rev (symbolArrays s a))\<rparr>
                in seq (map storeSymbol (symbolArrays s a)) s)
           | None \<Rightarrow> Inl NoAssignmentTarget))"

definition whileStatementPre :: "node \<Rightarrow> CodeGenerator \<Rightarrow> CodeGenerator \<times> nat option" where
  "whileStatementPre node s =
     (let s = s\<lparr>controlStatementId := controlStatementId s + 1\<rparr>;
          cid = controlStatementId s
      in (s\<lparr>codeEmitter := label (''loop_start_'' @ showNat cid) None (codeEmitter s)\<rparr>,
          Some cid))"

definition callsub :: "node \<Rightarrow> CodeGenerator \<Rightarrow> error + CodeGenerator" where
  "callsub node =
     emit (''callsub '' @ str (name node)) 1
       (case functionArgs node of None \<Rightarrow> 0 | Some as \<Rightarrow> length as) None"

definition itxn_field :: "node \<Rightarrow> CodeGenerator \<Rightarrow> error + CodeGenerator" where
  "itxn_field node s =
     (case functionArgs node of
        None \<Rightarrow> Inl TypeError
      | Some [] \<Rightarrow> Inl TypeError
      | Some (a # _) \<Rightarrow>
          (case nodeValue a of
             None \<Rightarrow> Inl TypeError
           | Some v \<Rightarrow> emit (''itxn_field '' @ unquote v) 0 1 None s))"

text \<open>
  The keys of the table \<^verbatim>\<open>builtins\<close>. The lookup tables are modelled by the keys their
  literals define. The table is a plain object, so the lookup \<^verbatim>\<open>this.builtins[node.name]\<close>
  also finds what the object inherits from \<^verbatim>\<open>Object.prototype\<close>, and what it finds there is
  truthy: the generator takes a call to a function of such a name for a builtin.
\<close>

definition builtinNames :: "string list" where
  "builtinNames = [''appGlobalPut'', ''appGlobalGet'', ''appGlobalDel'', ''appLocalPut'',
     ''appLocalGet'', ''appLocalDel'', ''btoi'', ''itob'', ''exit'', ''itxn_begin'',
     ''itxn_field'', ''itxn_submit'']"

definition objectPrototypeNames :: "string list" where
  "objectPrototypeNames = [''constructor'', ''hasOwnProperty'', ''isPrototypeOf'',
     ''propertyIsEnumerable'', ''toLocaleString'', ''toString'', ''valueOf'', ''__proto__'',
     ''__defineGetter__'', ''__defineSetter__'', ''__lookupGetter__'', ''__lookupSetter__'']"

definition isBuiltin :: "string option \<Rightarrow> bool" where
  "isBuiltin nm =
     (case nm of
        None \<Rightarrow> False
      | Some n \<Rightarrow> n \<in> set builtinNames \<or> n \<in> set objectPrototypeNames)"

text \<open>
  The call \<^verbatim>\<open>builtin(node)\<close> of an inherited member, with no receiver: \<^verbatim>\<open>toString\<close> and
  \<^verbatim>\<open>constructor\<close> (the function \<^verbatim>\<open>Object\<close>) return and emit nothing; the other members
  convert the missing receiver to an object, and \<^verbatim>\<open>__proto__\<close> is not a function: a
  TypeError.
\<close>

definition inheritedMember :: "node \<Rightarrow> CodeGenerator \<Rightarrow> error + CodeGenerator" where
  "inheritedMember node s =
     (if name node = Some ''toString'' \<or> name node = Some ''constructor'' then Inr s
      else Inl TypeError)"

subsection \<open>The walk\<close>

text \<open>
  \<open>internalGenerateCode\<close> with the table \<^verbatim>\<open>visitors\<close> (\<open>visitorsPre\<close>, \<open>visitorsPost\<close>: a node
  type without an entry falls through to the last branch) and the table \<^verbatim>\<open>builtins\<close>.
  \<open>generateEach\<close> is the loop over a list of nodes and \<open>generateArgs\<close> the loop
  \<^verbatim>\<open>for (const arg of node.functionArgs || [])\<close>. The second result of \<open>visitorsPre\<close> is
  the node's \<^verbatim>\<open>controlStatementId\<close> as the pre hook leaves it. What the table
  \<^verbatim>\<open>visitors\<close> inherits from \<^verbatim>\<open>Object.prototype\<close> has neither a \<^verbatim>\<open>pre\<close> nor a \<^verbatim>\<open>post\<close>
  member, so a node type of such a name falls through to the last branch as well.
\<close>

function internalGenerateCode :: "node \<Rightarrow> CodeGenerator \<Rightarrow> error + CodeGenerator"
  and generateEach :: "node list \<Rightarrow> CodeGenerator \<Rightarrow> error + CodeGenerator"
  and generateArgs :: "node \<Rightarrow> CodeGenerator \<Rightarrow> error + CodeGenerator"
  and visitorsPre :: "node \<Rightarrow> CodeGenerator \<Rightarrow> error + CodeGenerator \<times> nat option"
  and visitorsPost :: "node \<Rightarrow> nat option \<Rightarrow> CodeGenerator \<Rightarrow> error + CodeGenerator"
  and builtins :: "node \<Rightarrow> CodeGenerator \<Rightarrow> error + CodeGenerator"
where
  "internalGenerateCode node s =
     (case visitorsPre node s of
        Inl e \<Rightarrow> Inl e
      | Inr (s, cid) \<Rightarrow>
          (case (case children node of None \<Rightarrow> Inr s | Some cs \<Rightarrow> generateEach cs s) of
             Inl e \<Rightarrow> Inl e
           | Inr s \<Rightarrow> visitorsPost node cid s))"
| "generateEach [] s = Inr s"
| "generateEach (child # rest) s =
     (case internalGenerateCode child s of Inl e \<Rightarrow> Inl e | Inr s \<Rightarrow> generateEach rest s)"
| "generateArgs node s =
     (case functionArgs node of None \<Rightarrow> Inr s | Some as \<Rightarrow> generateEach as s)"
| "visitorsPre node s =
     (if nodeType node = ''expr-statement'' then
        Inr (s\<lparr>codeEmitter := resetStack (codeEmitter s)\<rparr>, None)
      else if nodeType node = ''return-statement'' then
        Inr (s\<lparr>codeEmitter := resetStack (codeEmitter s)\<rparr>, None)
      else if nodeType node = ''declare-variable'' then
        Inr (s\<lparr>codeEmitter := resetStack (codeEmitter s)\<rparr>, None)
      else if nodeType node = ''while-statement'' then Inr (whileStatementPre node s)
      else if nodeType node = ''function-call'' then
        (if \<not> isBuiltin (name node) then
           (case generateArgs node s of Inl e \<Rightarrow> Inl e | Inr s \<Rightarrow> Inr (s, None))
         else Inr (s, None))
      else Inr (s, None))"
| "visitorsPost node cid s =
     (if nodeType node = ''number'' then numberPost node s
      else if nodeType node = ''string-literal'' then stringLiteralPost node s
      else if nodeType node = ''operation'' then operationPost node s
      else if nodeType node = ''expr-statement'' then emitter popAll s
      else if nodeType node = ''return-statement'' then returnStatementPost node s
      else if nodeType node = ''declare-variable'' then
        (case (case initializer node of None \<Rightarrow> Inr s | Some i \<Rightarrow> internalGenerateCode i s) of
           Inl e \<Rightarrow> Inl e
         | Inr s \<Rightarrow> emitter popAll s)
      else if nodeType node = ''access-variable'' then accessVariablePost node s
      else if nodeType node = ''assignment-statement'' then assignmentStatementPost node s
      else if nodeType node = ''if-statement'' then
        (let s = s\<lparr>controlStatementId := controlStatementId s + 1\<rparr>;
             cid = controlStatementId s
         in case emit (''bz else_'' @ showNat cid) 0 1 None s of
              Inl e \<Rightarrow> Inl e
            | Inr s \<Rightarrow>
                (case (case ifBlock node of None \<Rightarrow> Inl TypeError
                       | Some b \<Rightarrow> internalGenerateCode b s) of
                   Inl e \<Rightarrow> Inl e
                 | Inr s \<Rightarrow>
                     (case seq [emit (''b end_'' @ showNat cid) 0 0 None,
                                emitter (label (''else_'' @ showNat cid) None)] s of
                        Inl e \<Rightarrow> Inl e
                      | Inr s \<Rightarrow>
                          (case (case elseBlock node of None \<Rightarrow> Inr s
                                 | Some b \<Rightarrow> internalGenerateCode b s) of
                             Inl e \<Rightarrow> Inl e
                           | Inr s \<Rightarrow> emitter (label (''end_'' @ showNat cid) None) s))))
      else if nodeType node = ''while-statement'' then
        (case children node of
           None \<Rightarrow> Inl TypeError
         | Some cs \<Rightarrow>
             (case emit (''bz loop_end_'' @ strNat cid) 0 (if length cs > 0 then 1 else 0) None s of
                Inl e \<Rightarrow> Inl e
              | Inr s \<Rightarrow>
                  (case (case body node of None \<Rightarrow> Inl TypeError
                         | Some b \<Rightarrow> internalGenerateCode b s) of
                     Inl e \<Rightarrow> Inl e
                   | Inr s \<Rightarrow>
                       seq [emit (''b loop_start_'' @ strNat cid) 0 0 None,
                            emitter (label (''loop_end_'' @ strNat cid) None)] s)))
      else if nodeType node = ''function-call'' then
        (if isBuiltin (name node) then builtins node s else callsub node s)
      else Inr s)"
| "builtins node s =
     (if name node = Some ''appGlobalPut'' then
        (case generateArgs node s of Inl e \<Rightarrow> Inl e
         | Inr s \<Rightarrow> seq [emit ''app_global_put'' 0 2 None, emit ''int 0'' 1 0 None] s)
      else if name node = Some ''appGlobalGet'' then
        (case generateArgs node s of Inl e \<Rightarrow> Inl e
         | Inr s \<Rightarrow> emit ''app_global_get'' 1 1 None s)
      else if name node = Some ''appGlobalDel'' then
        (case generateArgs node s of Inl e \<Rightarrow> Inl e
         | Inr s \<Rightarrow> seq [emit ''app_global_del'' 0 1 None, emit ''int 0'' 1 0 None] s)
      else if name node = Some ''appLocalPut'' then
        (case generateArgs node s of Inl e \<Rightarrow> Inl e
         | Inr s \<Rightarrow> seq [emit ''app_local_put'' 0 2 None, emit ''int 0'' 1 0 None] s)
      else if name node = Some ''appLocalGet'' then
        (case generateArgs node s of Inl e \<Rightarrow> Inl e
         | Inr s \<Rightarrow> emit ''app_local_get'' 1 2 None s)
      else if name node = Some ''appLocalDel'' then
        (case generateArgs node s of Inl e \<Rightarrow> Inl e
         | Inr s \<Rightarrow> seq [emit ''app_local_del'' 0 2 None, emit ''int 0'' 1 0 None] s)
      else if name node = Some ''btoi'' then
        (case generateArgs node s of Inl e \<Rightarrow> Inl e
         | Inr s \<Rightarrow> emit ''btoi'' 1 1 None s)
      else if name node = Some ''itob'' then
        (case generateArgs node s of Inl e \<Rightarrow> Inl e
         | Inr s \<Rightarrow> emit ''itob'' 1 1 None s)
      else if name node = Some ''exit'' then
        (case generateArgs node s of Inl e \<Rightarrow> Inl e
         | Inr s \<Rightarrow> emit ''return'' 0 0 None s)
      else if name node = Some ''itxn_begin'' then
        seq [emit ''itxn_begin'' 0 0 None, emit ''int 0'' 1 0 None] s
      else if name node = Some ''itxn_field'' then itxn_field node s
      else if name node = Some ''itxn_submit'' then
        seq [emit ''itxn_submit'' 0 0 None, emit ''int 0'' 1 0 None] s
      else inheritedMember node s)"
  by pat_completeness auto

termination
  by (relation "measure (\<lambda>x. case x of
        Inl (Inl (n, s)) \<Rightarrow> 4 * size n + 3
      | Inl (Inr (Inl (ns, s))) \<Rightarrow> 4 * size_list size ns
      | Inl (Inr (Inr (n, s))) \<Rightarrow> 4 * size n
      | Inr (Inl (n, s)) \<Rightarrow> 4 * size n + 2
      | Inr (Inr (Inl (n, c, s))) \<Rightarrow> 4 * size n + 2
      | Inr (Inr (Inr (n, s))) \<Rightarrow> 4 * size n + 1)")
    (auto dest: size_children size_functionArgs size_body size_initializer size_ifBlock
       size_elseBlock)

declare internalGenerateCode.simps [simp del]
declare generateArgs.simps [simp del]
declare visitorsPre.simps [simp del]
declare visitorsPost.simps [simp del]
declare builtins.simps [simp del]

subsection \<open>Function bodies\<close>

definition storeParam :: "node \<Rightarrow> string \<Rightarrow> CodeGenerator \<Rightarrow> error + CodeGenerator" where
  "storeParam functionNode param s =
     (case scope functionNode of
        None \<Rightarrow> Inl TypeError
      | Some sc \<Rightarrow>
          (case get (tables s) sc (Some param) of
             None \<Rightarrow> Inl TypeError
           | Some sy \<Rightarrow>
               seq [emit (''int '' @ showNat (position sy)) 1 0 None,
                    emit ''load 0'' 1 0 None,
                    emit ''+'' 2 1 None,
                    emit ''stores'' 0 2
                      (Some (''Stores '' @ [CHR 0x22] @ param @ [CHR 0x22] @ ''.''))] s))"

text \<open>
  The block \<^verbatim>\<open>if (functionNode.params) { ... }\<close>: \<^verbatim>\<open>reverse()\<close> reverses the array where
  it lies and the loop runs over the reversed array.
\<close>

definition setupArguments :: "node \<Rightarrow> CodeGenerator \<Rightarrow> error + CodeGenerator" where
  "setupArguments functionNode s =
     (case params functionNode of
        None \<Rightarrow> Inr s
      | Some a \<Rightarrow>
          (case emitter (addSection (Some ''Setup arguments.'')) s of
             Inl e \<Rightarrow> Inl e
           | Inr s \<Rightarrow>
               (let s = s\<lparr>paramArrays := (paramArrays s)(a := rev (paramArrays s a))\<rparr>
                in seq (map (storeParam functionNode) (paramArrays s a)) s)))"

definition generateFunctionCode :: "node \<Rightarrow> CodeGenerator \<Rightarrow> error + CodeGenerator" where
  "generateFunctionCode functionNode =
     seq [
       (\<lambda>s. Inr (s\<lparr>curFunction := Some functionNode\<rparr>)),
       emitter (label (str (name functionNode)) None),
       emitter (addSection (Some ''Function setup.'')),
       emit ''load 0'' 1 0 (Some (''Take copy of current stack_pointer on stack so that we can save it as the ''
          @ [CHR 0x22] @ ''previous stack pointer'' @ [CHR 0x22] @ '' in the new stack frame.'')),
       emitter (addSection
         (Some ''Allocate stack frame for the function being called and update the stack_pointer.'')),
       emitter (addSection (Some ''stack_pointer = stack_pointer - (num_locals+1)'')),
       emit ''load 0'' 1 0 (Some ''stack_pointer''),
       (\<lambda>s. case scope functionNode of
              None \<Rightarrow> Inl TypeError
            | Some sc \<Rightarrow>
                emit (''int '' @ showNat (getNumSymbols (tables s) sc + 1)) 1 0
                  (Some ''num_locals+1'') s),
       emit ''-'' 2 1 (Some ''stack_pointer - (num_locals+1)''),
       emit ''store 0'' 0 1 (Some ''stack_pointer = stack_pointer - (num_locals+1)''),
       emit ''load 0'' 1 0 (Some ''Loads the stack_pointer for the new stack frame, this is where we'll store the previous stack pointer.''),
       emit ''swap'' 2 2 (Some ''The values on the compute stack are in the wrong order, swap so they are in the right order.''),
       emit ''stores'' 0 2 (Some ''Stores previous stack pointer at the first position in the new stack frame.''),
       emitter (addSection None),
       setupArguments functionNode,
       emitter (addSection (Some ''Function body.'')),
       (\<lambda>s. case body functionNode of
              None \<Rightarrow> Inl TypeError
            | Some b \<Rightarrow> internalGenerateCode b s),
       emitter (label (str (name functionNode) @ ''-cleanup'')
         (Some ''Function cleanup. Restores the previous stack frame'')),
       emit ''load 0'' 1 0 (Some ''Loads current stack_pointer''),
       emit ''loads'' 1 1 (Some ''Loads previous_stack_pointer''),
       emit ''store 0'' 0 1 (Some ''stack_pointer = previous_stack_pointer''),
       emit ''retsub'' 0 0 (Some ''Catch all return.'')]"

subsection \<open>The driver\<close>

fun collectFunctions :: "node \<Rightarrow> CodeGenerator \<Rightarrow> CodeGenerator"
  and collectEach :: "node list \<Rightarrow> CodeGenerator \<Rightarrow> CodeGenerator" where
  "collectFunctions node s =
     (let s = (case children node of None \<Rightarrow> s | Some cs \<Rightarrow> collectEach cs s)
      in if nodeType node = ''function-declaration''
         then s\<lparr>functionNodes := functionNodes s @ [node]\<rparr>
         else s)"
| "collectEach [] s = s"
| "collectEach (child # rest) s = collectEach rest (collectFunctions child s)"

declare collectFunctions.simps [simp del]

text \<open>The loop \<^verbatim>\<open>for (const functionNode of this.functions)\<close>.\<close>

fun generateFunctions :: "node list \<Rightarrow> CodeGenerator \<Rightarrow> error + CodeGenerator" where
  "generateFunctions [] s = Inr s"
| "generateFunctions (functionNode # rest) s =
     (case generateFunctionCode functionNode s of
        Inl e \<Rightarrow> Inl e
      | Inr s \<Rightarrow> generateFunctions rest s)"

text \<open>\<open>MAX_SCRATCH\<close> is a constant of config.ts, which is not among the sources: a parameter.\<close>

definition generateCode :: "nat \<Rightarrow> node \<Rightarrow> CodeGenerator \<Rightarrow> error + CodeGenerator" where
  "generateCode MAX_SCRATCH ast s =
     (let s = s\<lparr>inFunction := False\<rparr>;
          s = s\<lparr>curFunction := None\<rparr>;
          s = s\<lparr>functionNodes := []\<rparr>;
          s = collectFunctions ast s
      in seq [
           (\<lambda>s. if length (functionNodes s) > 0 then
                  seq [emitter (addSection (Some ''Function data stack setup.'')),
                       emit (''int '' @ showNat MAX_SCRATCH) 1 0 (Some ''Initial stack pointer.''),
                       emit ''store 0'' 0 1 (Some ''Set stack_pointer''),
                       emitter (addSection None)] s
                else Inr s),
           internalGenerateCode ast,
           (\<lambda>s. if length (functionNodes s) > 0 then
                  seq [emit ''b program_end'' 0 0 None,
                       (\<lambda>s. Inr (s\<lparr>inFunction := True\<rparr>)),
                       (\<lambda>s. generateFunctions (functionNodes s) s),
                       emitter (addSection None),
                       emitter (label ''program_end'' None)] s
                else Inr s)] s)"

text \<open>A generator as the constructor leaves it, on a fresh emitter, over a given heap.\<close>

definition newCodeGenerator :: "(nat \<Rightarrow> string list) \<Rightarrow> (nat \<Rightarrow> ISymbol list) \<Rightarrow> tableStore
    \<Rightarrow> CodeGenerator" where
  "newCodeGenerator ps ss ts =
     \<lparr>controlStatementId = 0, functionNodes = [], inFunction = False, curFunction = None,
      codeEmitter = \<lparr>outputLines = [], stackSize = 0\<rparr>,
      paramArrays = ps, symbolArrays = ss, tables = ts\<rparr>"

section \<open>Symbol resolution (class SymbolResolution)\<close>

text \<open>
  The resolver allocates symbol tables and defines symbols in them: its state is the store
  of tables and the next free table identity. It annotates the tree in place; the model
  returns the annotated tree.
\<close>

record resolver =
  tableStore :: tableStore
  nextTableId :: nat

definition newSymbolTable :: "SymbolTable option \<Rightarrow> resolver \<Rightarrow> SymbolTable \<times> resolver" where
  "newSymbolTable p r =
     (SymbolTable (nextTableId r) p,
      r\<lparr>tableStore := (tableStore r)(nextTableId r := []), nextTableId := nextTableId r + 1\<rparr>)"

definition declareHandler :: "SymbolType \<Rightarrow> node \<Rightarrow> SymbolTable \<Rightarrow> resolver
    \<Rightarrow> error + node \<times> resolver" where
  "declareHandler kind node symbolTable r =
     (if isDefinedLocally (tableStore r) symbolTable (name node)
      then Inl (DuplicateDefinition (name node))
      else
        (case defineSymbol (tableStore r) symbolTable (name node) kind of
           Inl e \<Rightarrow> Inl e
         | Inr (ts, sy) \<Rightarrow> Inr (setSymbol (Some sy) node, r\<lparr>tableStore := ts\<rparr>)))"

definition accessVariableHandler :: "node \<Rightarrow> SymbolTable \<Rightarrow> resolver
    \<Rightarrow> error + node \<times> resolver" where
  "accessVariableHandler node symbolTable r =
     (case get (tableStore r) symbolTable (name node) of
        None \<Rightarrow> Inl (UndeclaredName (name node))
      | Some sy \<Rightarrow> Inr (setSymbol (Some sy) node, r))"

definition assignmentStatementHandler :: "node \<Rightarrow> SymbolTable \<Rightarrow> resolver
    \<Rightarrow> error + node \<times> resolver" where
  "assignmentStatementHandler node symbolTable r =
     (case assignee node of
        None \<Rightarrow> Inl TypeError
      | Some a \<Rightarrow>
          if nodeType a \<noteq> ''access-variable'' then Inl NotAnLvalue
          else
            (case get (tableStore r) symbolTable (name a) of
               None \<Rightarrow> Inl (UndeclaredName (name a))
             | Some sy \<Rightarrow>
                 if symbolType sy \<noteq> Variable then Inl (AssignToConstant (symbolName sy))
                 else Inr (setSymbol (Some sy) node, r)))"

text \<open>
  The lookup \<^verbatim>\<open>this.nodeHandlers[node.nodeType]\<close> on a node type that names a member of
  \<^verbatim>\<open>Object.prototype\<close> finds that member, and the resolver calls it with no receiver:
  \<^verbatim>\<open>toString\<close> and \<^verbatim>\<open>constructor\<close> return, the other members throw a TypeError. Any other
  node type without an entry has no handler.
\<close>

definition inheritedHandler :: "node \<Rightarrow> resolver \<Rightarrow> error + node \<times> resolver" where
  "inheritedHandler node r =
     (if nodeType node = ''toString'' \<or> nodeType node = ''constructor'' then Inr (node, r)
      else if nodeType node \<in> set objectPrototypeNames then Inl TypeError
      else Inr (node, r))"

text \<open>
  \<open>internalResolveSymbols\<close> with the table \<^verbatim>\<open>nodeHandlers\<close>. No handler reads
  \<^verbatim>\<open>children\<close>, so the model hands the handler the node as it came and puts the resolved
  children into the handler's result.
\<close>

function internalResolveSymbols :: "node \<Rightarrow> SymbolTable \<Rightarrow> resolver \<Rightarrow> error + node \<times> resolver"
  and resolveEach :: "node list \<Rightarrow> SymbolTable \<Rightarrow> resolver \<Rightarrow> error + node list \<times> resolver"
  and nodeHandlers :: "node \<Rightarrow> SymbolTable \<Rightarrow> resolver \<Rightarrow> error + node \<times> resolver"
where
  "internalResolveSymbols node symbolTable r =
     (case (case children node of
              None \<Rightarrow> Inr (None, r)
            | Some cs \<Rightarrow>
                (case resolveEach cs symbolTable r of
                   Inl e \<Rightarrow> Inl e
                 | Inr (cs', r) \<Rightarrow> Inr (Some cs', r))) of
        Inl e \<Rightarrow> Inl e
      | Inr (cs', r) \<Rightarrow>
          (case nodeHandlers node symbolTable r of
             Inl e \<Rightarrow> Inl e
           | Inr (node', r) \<Rightarrow> Inr (setChildren cs' node', r)))"
| "resolveEach [] symbolTable r = Inr ([], r)"
| "resolveEach (child # rest) symbolTable r =
     (case internalResolveSymbols child symbolTable r of
        Inl e \<Rightarrow> Inl e
      | Inr (child', r) \<Rightarrow>
          (case resolveEach rest symbolTable r of
             Inl e \<Rightarrow> Inl e
           | Inr (rest', r) \<Rightarrow> Inr (child' # rest', r)))"
| "nodeHandlers node symbolTable r =
     (if nodeType node = ''function-declaration'' then
        (case newSymbolTable (Some symbolTable) r of
           (localSymbolTable, r) \<Rightarrow>
             (case body node of
                None \<Rightarrow> Inl TypeError
              | Some b \<Rightarrow>
                  (case internalResolveSymbols b localSymbolTable r of
                     Inl e \<Rightarrow> Inl e
                   | Inr (b', r) \<Rightarrow>
                       Inr (setBody (Some b') (setScope (Some localSymbolTable) node), r))))
      else if nodeType node = ''declare-variable'' then declareHandler Variable node symbolTable r
      else if nodeType node = ''declare-constant'' then declareHandler Constant node symbolTable r
      else if nodeType node = ''access-variable'' then accessVariableHandler node symbolTable r
      else if nodeType node = ''assignment-statement'' then
        assignmentStatementHandler node symbolTable r
      else if nodeType node = ''if-statement'' then
        (case ifBlock node of
           None \<Rightarrow> Inl TypeError
         | Some b \<Rightarrow>
             (case internalResolveSymbols b symbolTable r of
                Inl e \<Rightarrow> Inl e
              | Inr (b', r) \<Rightarrow>
                  (case elseBlock node of
                     None \<Rightarrow> Inr (setIfBlock (Some b') node, r)
                   | Some eb \<Rightarrow>
                       (case internalResolveSymbols eb symbolTable r of
                          Inl e \<Rightarrow> Inl e
                        | Inr (eb', r) \<Rightarrow>
                            Inr (setElseBlock (Some eb') (setIfBlock (Some b') node), r)))))
      else inheritedHandler node r)"
  by pat_completeness auto

termination
  by (relation "measure (\<lambda>x. case x of
        Inl (n, t, r) \<Rightarrow> 2 * size n + 1
      | Inr (Inl (ns, t, r)) \<Rightarrow> 2 * size_list size ns
      | Inr (Inr (n, t, r)) \<Rightarrow> 2 * size n)")
    (auto dest: size_children size_body size_ifBlock size_elseBlock)

declare internalResolveSymbols.simps [simp del]
declare nodeHandlers.simps [simp del]

definition resolveSymbols :: "node \<Rightarrow> error + node \<times> resolver" where
  "resolveSymbols node =
     (case newSymbolTable None \<lparr>tableStore = (\<lambda>_. []), nextTableId = 0\<rparr> of
        (globalSymbolTable, r) \<Rightarrow> internalResolveSymbols node globalSymbolTable r)"

section \<open>The expression compiler (compile and genCode)\<close>

text \<open>
  \<open>compile\<close> works on what the parser returns, a value of type \<^verbatim>\<open>any\<close> with the attributes
  \<open>genCode\<close> reads. The parser is not among the sources: a parameter.
\<close>

datatype rawNode = RawNode
  (rawNodeType: "string option")
  (rawChildren: "rawNode list option")
  (rawOpcode: "string option")
  (rawValue: "string option")
  (fieldName: "string option")
  (argIndex: "string option")
  (stmtType: "string option")

lemma size_rawChildren [termination_simp]:
  "rawChildren n = Some cs \<Longrightarrow> size_list size cs < size n"
  by (cases n) simp

fun genCode :: "rawNode \<Rightarrow> string option list \<Rightarrow> error + string option list"
  and genCodeEach :: "rawNode list \<Rightarrow> string option list \<Rightarrow> error + string option list" where
  "genCode node output =
     (case (case rawChildren node of None \<Rightarrow> Inr output | Some cs \<Rightarrow> genCodeEach cs output) of
        Inl e \<Rightarrow> Inl e
      | Inr output \<Rightarrow>
          if rawNodeType node = Some ''operator'' then Inr (output @ [rawOpcode node])
          else if rawNodeType node = Some ''literal'' then
            Inr (output @ [Some (str (rawOpcode node) @ '' '' @ str (rawValue node))])
          else if rawNodeType node = Some ''txn'' then
            Inr (output @ [Some (''txn '' @ str (fieldName node))])
          else if rawNodeType node = Some ''arg'' then
            Inr (output @ [Some (''arg '' @ str (argIndex node))])
          else if rawNodeType node = Some ''block'' then Inr output
          else if rawNodeType node = Some ''statement'' then
            (if stmtType node = Some ''expr'' then Inr output
             else if stmtType node = Some ''return'' then Inr (output @ [Some ''return''])
             else Inl (UnexpectedStatementType (stmtType node)))
          else Inl (UnexpectedNodeType (rawNodeType node)))"
| "genCodeEach [] output = Inr output"
| "genCodeEach (child # rest) output =
     (case genCode child output of Inl e \<Rightarrow> Inl e | Inr output \<Rightarrow> genCodeEach rest output)"

declare genCode.simps [simp del]

definition compile :: "(string \<Rightarrow> error + rawNode) \<Rightarrow> string \<Rightarrow> error + string" where
  "compile parse input =
     (case parse input of
        Inl e \<Rightarrow> Inl e
      | Inr ast \<Rightarrow>
          (case genCode ast [] of
             Inl e \<Rightarrow> Inl e
           | Inr output \<Rightarrow> Inr (''#pragma version 3'' @ CRLF @ join CRLF output)))"

section \<open>The output of compile\<close>

text \<open>The AST of \<^verbatim>\<open>1 + 2 ; return 3 ;\<close> (scenario S3 of the specification).\<close>

definition statementsExample :: rawNode where
  "statementsExample =
     RawNode (Some ''block'') (Some [
       RawNode (Some ''statement'') (Some [
         RawNode (Some ''operator'') (Some [
           RawNode (Some ''literal'') None (Some ''int'') (Some ''1'') None None None,
           RawNode (Some ''literal'') None (Some ''int'') (Some ''2'') None None None])
           (Some ''+'') None None None None]) None None None None (Some ''expr''),
       RawNode (Some ''statement'') (Some [
         RawNode (Some ''literal'') None (Some ''int'') (Some ''3'') None None None])
         None None None None (Some ''return'')]) None None None None None"

lemma join_lines:
  "join sep xs =
     (case xs of [] \<Rightarrow> []
      | l # ls \<Rightarrow> (case l of None \<Rightarrow> [] | Some s \<Rightarrow> s) @
          concat (map (\<lambda>x. sep @ (case x of None \<Rightarrow> [] | Some s \<Rightarrow> s)) ls))"
  by (induction sep xs rule: join.induct) (simp_all split: option.splits)

lemma genCode_statementsExample:
  "genCode statementsExample [] =
     Inr [Some ''int 1'', Some ''int 2'', Some ''+'', Some ''int 3'', Some ''return'']"
  by (simp add: statementsExample_def genCode.simps str_def)

text \<open>
  C8. \<open>compile\<close> returns a text exactly when the parser returns an AST and \<open>genCode\<close> returns
  its lines for it, and the text is then \<^verbatim>\<open>#pragma version 3\<close>, a CR-LF pair, and the
  lines that \<open>genCode\<close> pushed: the first line as it is and every later line after a CR-LF
  pair. (When the parser or \<open>genCode\<close> throws, so does \<open>compile\<close>.)
\<close>

theorem compile_output_format:
  "compile parse input = Inr text \<longleftrightarrow>
     (\<exists>ast out. parse input = Inr ast \<and> genCode ast [] = Inr out \<and>
        text = ''#pragma version 3'' @ CRLF @
          (case out of [] \<Rightarrow> []
           | l # ls \<Rightarrow> (case l of None \<Rightarrow> [] | Some s \<Rightarrow> s) @
               concat (map (\<lambda>x. CRLF @ (case x of None \<Rightarrow> [] | Some s \<Rightarrow> s)) ls)))"
  unfolding compile_def join_lines [symmetric]
  by (auto split: sum.splits)

theorem compile_output_format_witness:
  "compile (\<lambda>_. Inr statementsExample) ''1 + 2 ; return 3 ;'' =
     Inr (''#pragma version 3'' @ CRLF @ ''int 1'' @ CRLF @ ''int 2'' @ CRLF @ ''+'' @ CRLF @
          ''int 3'' @ CRLF @ ''return'')"
  using compile_output_format [of "\<lambda>_. Inr statementsExample" "''1 + 2 ; return 3 ;''"
      "''#pragma version 3'' @ CRLF @ ''int 1'' @ CRLF @ ''int 2'' @ CRLF @ ''+'' @ CRLF @
          ''int 3'' @ CRLF @ ''return''"]
  by (simp add: genCode_statementsExample)

section \<open>Assignments in the resolver\<close>

lemma node_setters [simp]:
  "nodeType (setSymbol v n) = nodeType n"
  "children (setSymbol v n) = children n"
  "symbol (setSymbol v n) = v"
  "symbols (setSymbol v n) = symbols n"
  "assignee (setSymbol v n) = assignee n"
  "name (setSymbol v n) = name n"
  by (cases n; simp)+

definition xVariable :: ISymbol where
  "xVariable = \<lparr>symbolName = Some ''x'', symbolType = Variable, position = 1, isGlobal = True\<rparr>"

definition cConstant :: ISymbol where
  "cConstant = \<lparr>symbolName = Some ''c'', symbolType = Constant, position = 2, isGlobal = True\<rparr>"

definition globalTable :: SymbolTable where
  "globalTable = SymbolTable 0 None"

definition resolverExample :: resolver where
  "resolverExample =
     \<lparr>tableStore = (\<lambda>_. [])(0 := [(Some ''x'', xVariable), (Some ''c'', cConstant)]),
      nextTableId = 1\<rparr>"

definition assignTo :: "node \<Rightarrow> node" where
  "assignTo target =
     setAssignee (Some target)
       (setChildren (Some [setValue (Some ''1'') (emptyNode ''number'')])
          (emptyNode ''assignment-statement''))"

definition accessOf :: "string \<Rightarrow> node" where
  "accessOf x = setName (Some x) (emptyNode ''access-variable'')"

lemma assignTo_simps:
  "nodeType (assignTo t) = ''assignment-statement''" "assignee (assignTo t) = Some t"
  by (simp_all add: assignTo_def emptyNode_def)

lemma accessOf_simps:
  "nodeType (accessOf x) = ''access-variable''" "name (accessOf x) = Some x"
  by (simp_all add: accessOf_def emptyNode_def)

lemma get_resolverExample:
  "get (tableStore resolverExample) globalTable (Some ''x'') = Some xVariable"
  "get (tableStore resolverExample) globalTable (Some ''c'') = Some cConstant"
  "get (tableStore resolverExample) globalTable (Some ''y'') = None"
  by (simp_all add: resolverExample_def globalTable_def)

text \<open>The first loop of \<open>internalResolveSymbols\<close>: the children, in order, with the table in hand.\<close>

definition resolveChildren :: "node \<Rightarrow> SymbolTable \<Rightarrow> resolver
    \<Rightarrow> error + node list option \<times> resolver" where
  "resolveChildren node symbolTable r =
     (case children node of
        None \<Rightarrow> Inr (None, r)
      | Some cs \<Rightarrow>
          (case resolveEach cs symbolTable r of
             Inl e \<Rightarrow> Inl e
           | Inr (cs', r) \<Rightarrow> Inr (Some cs', r)))"

lemma internalResolveSymbols_eq:
  "internalResolveSymbols node symbolTable r =
     (case resolveChildren node symbolTable r of
        Inl e \<Rightarrow> Inl e
      | Inr (cs', r) \<Rightarrow>
          (case nodeHandlers node symbolTable r of
             Inl e \<Rightarrow> Inl e
           | Inr (node', r) \<Rightarrow> Inr (setChildren cs' node', r)))"
  by (simp add: internalResolveSymbols.simps [of node] resolveChildren_def)

lemma nodeHandlers_assignment:
  "nodeType node = ''assignment-statement'' \<Longrightarrow>
     nodeHandlers node symbolTable r = assignmentStatementHandler node symbolTable r"
  by (simp add: nodeHandlers.simps)

definition numberOne :: node where
  "numberOne = setValue (Some ''1'') (emptyNode ''number'')"

definition oneGetsY :: node where
  "oneGetsY =
     setAssignee (Some numberOne)
       (setChildren (Some [accessOf ''y'']) (emptyNode ''assignment-statement''))"

lemmas resolution_defs = internalResolveSymbols.simps nodeHandlers.simps declareHandler_def
  defineSymbol_def isDefinedLocally_def getNumSymbols_def assignmentStatementHandler_def
  accessVariableHandler_def inheritedHandler_def objectPrototypeNames_def Let_def

text \<open>
  C5 as stated fails: the resolver resolves the children of a node before it calls the node's
  handler. In \<^verbatim>\<open>1 = y\<close> the assignee is no \<^verbatim>\<open>access-variable\<close>, and the resolver fails with
  UndeclaredName for the undeclared \<^verbatim>\<open>y\<close> among the children, not with NotAnLvalue.
\<close>

theorem assignment_not_lvalue_counterexample:
  "nodeType oneGetsY = ''assignment-statement'' \<and>
   assignee oneGetsY = Some numberOne \<and>
   nodeType numberOne \<noteq> ''access-variable'' \<and>
   internalResolveSymbols oneGetsY globalTable resolverExample = Inl (UndeclaredName (Some ''y'')) \<and>
   internalResolveSymbols oneGetsY globalTable resolverExample \<noteq> Inl NotAnLvalue"
  by (simp add: oneGetsY_def numberOne_def accessOf_def emptyNode_def resolution_defs
      resolverExample_def globalTable_def)

text \<open>
  C5, amended. An \<^verbatim>\<open>assignment-statement\<close> node with an assignee, handed to the resolver
  with a symbol table: the children are resolved first, and where one of them fails the
  resolver fails with that error. Otherwise, with the tables as the children leave them: it
  fails with NotAnLvalue when the assignee is not an \<^verbatim>\<open>access-variable\<close>; otherwise with
  UndeclaredName when the parent-chain lookup \<open>get\<close> of the assignee's name finds nothing;
  otherwise with AssignToConstant when the symbol found is not a Variable; otherwise it
  succeeds and returns the node with its resolved children and the found symbol attached
  (and \<^verbatim>\<open>symbols\<close> as it was). \<open>resolveSymbols\<close> hands the root to the resolver with a fresh,
  empty global table.
\<close>

theorem assignment_resolved_after_children:
  assumes "nodeType node = ''assignment-statement''" and "assignee node = Some a"
  shows "(\<forall>e. resolveChildren node symbolTable r = Inl e \<longrightarrow>
            internalResolveSymbols node symbolTable r = Inl e) \<and>
         (\<forall>cs' r'. resolveChildren node symbolTable r = Inr (cs', r') \<longrightarrow>
            (nodeType a \<noteq> ''access-variable'' \<longrightarrow>
               internalResolveSymbols node symbolTable r = Inl NotAnLvalue) \<and>
            (nodeType a = ''access-variable'' \<and>
             get (tableStore r') symbolTable (name a) = None \<longrightarrow>
               internalResolveSymbols node symbolTable r = Inl (UndeclaredName (name a))) \<and>
            (\<forall>sy. nodeType a = ''access-variable'' \<and>
                  get (tableStore r') symbolTable (name a) = Some sy \<and>
                  symbolType sy \<noteq> Variable \<longrightarrow>
               internalResolveSymbols node symbolTable r =
                 Inl (AssignToConstant (symbolName sy))) \<and>
            (\<forall>sy. nodeType a = ''access-variable'' \<and>
                  get (tableStore r') symbolTable (name a) = Some sy \<and>
                  symbolType sy = Variable \<longrightarrow>
               internalResolveSymbols node symbolTable r =
                 Inr (setChildren cs' (setSymbol (Some sy) node), r') \<and>
               symbol (setChildren cs' (setSymbol (Some sy) node)) = Some sy \<and>
               symbols (setChildren cs' (setSymbol (Some sy) node)) = symbols node)) \<and>
         resolveSymbols node =
           internalResolveSymbols node (SymbolTable 0 None)
             \<lparr>tableStore = (\<lambda>_. [])(0 := []), nextTableId = 1\<rparr>"
proof -
  have sc: "symbol (setChildren c n) = symbol n" "symbols (setChildren c n) = symbols n" for c n
    by (cases n; simp)+
  show ?thesis
    using assms
    by (simp add: internalResolveSymbols_eq nodeHandlers_assignment assignmentStatementHandler_def
        resolveSymbols_def newSymbolTable_def sc)
qed


definition xGetsY :: node where
  "xGetsY =
     setAssignee (Some (accessOf ''x''))
       (setChildren (Some [accessOf ''y'']) (emptyNode ''assignment-statement''))"

definition declareThenAssign :: node where
  "declareThenAssign =
     setChildren (Some [setName (Some ''x'') (emptyNode ''declare-variable''),
                        assignTo (accessOf ''x'')])
       (emptyNode ''block'')"

lemma resolveChildren_assignTo:
  "resolveChildren (assignTo a) symbolTable r = Inr (Some [numberOne], r)"
  by (simp add: resolveChildren_def assignTo_def numberOne_def emptyNode_def resolution_defs)

lemma resolveChildren_xGetsY:
  "resolveChildren xGetsY globalTable resolverExample = Inl (UndeclaredName (Some ''y''))"
  by (simp add: resolveChildren_def xGetsY_def accessOf_def emptyNode_def resolution_defs
      resolverExample_def globalTable_def)

lemma xGetsY_simps:
  "nodeType xGetsY = ''assignment-statement''" "assignee xGetsY = Some (accessOf ''x'')"
  by (simp_all add: xGetsY_def emptyNode_def)

lemma resolve_declareThenAssign:
  "resolveSymbols declareThenAssign =
     Inr (setChildren (Some [setSymbol (Some xVariable)
                               (setName (Some ''x'') (emptyNode ''declare-variable'')),
                             setChildren (Some [numberOne])
                               (setSymbol (Some xVariable) (assignTo (accessOf ''x'')))])
            (emptyNode ''block''),
          \<lparr>tableStore = (\<lambda>_. [])(0 := [(Some ''x'', xVariable)]), nextTableId = 1\<rparr>)"
  by (simp add: declareThenAssign_def resolveSymbols_def newSymbolTable_def assignTo_def
      accessOf_def numberOne_def emptyNode_def resolution_defs xVariable_def)

theorem assignment_resolved_after_children_witness:
  "internalResolveSymbols xGetsY globalTable resolverExample = Inl (UndeclaredName (Some ''y'')) \<and>
   internalResolveSymbols (assignTo (emptyNode ''number'')) globalTable resolverExample =
     Inl NotAnLvalue \<and>
   internalResolveSymbols (assignTo (accessOf ''y'')) globalTable resolverExample =
     Inl (UndeclaredName (Some ''y'')) \<and>
   internalResolveSymbols (assignTo (accessOf ''c'')) globalTable resolverExample =
     Inl (AssignToConstant (Some ''c'')) \<and>
   internalResolveSymbols (assignTo (accessOf ''x'')) globalTable resolverExample =
     Inr (setChildren (Some [numberOne]) (setSymbol (Some xVariable) (assignTo (accessOf ''x''))),
          resolverExample) \<and>
   resolveSymbols (assignTo (accessOf ''x'')) = Inl (UndeclaredName (Some ''x'')) \<and>
   resolveSymbols declareThenAssign =
     Inr (setChildren (Some [setSymbol (Some xVariable)
                               (setName (Some ''x'') (emptyNode ''declare-variable'')),
                             setChildren (Some [numberOne])
                               (setSymbol (Some xVariable) (assignTo (accessOf ''x'')))])
            (emptyNode ''block''),
          \<lparr>tableStore = (\<lambda>_. [])(0 := [(Some ''x'', xVariable)]), nextTableId = 1\<rparr>)"
  using
    assignment_resolved_after_children [OF xGetsY_simps, of globalTable resolverExample]
    assignment_resolved_after_children [OF assignTo_simps, of "emptyNode ''number''" globalTable
      resolverExample]
    assignment_resolved_after_children [OF assignTo_simps, of "accessOf ''y''" globalTable
      resolverExample]
    assignment_resolved_after_children [OF assignTo_simps, of "accessOf ''c''" globalTable
      resolverExample]
    assignment_resolved_after_children [OF assignTo_simps, of "accessOf ''x''" globalTable
      resolverExample]
    assignment_resolved_after_children [OF assignTo_simps, of "accessOf ''x''" "SymbolTable 0 None"
      "\<lparr>tableStore = (\<lambda>_. [])(0 := []), nextTableId = 1\<rparr>"]
  by (simp add: resolveChildren_assignTo resolveChildren_xGetsY accessOf_simps
      get_resolverExample emptyNode_def xVariable_def cConstant_def resolve_declareThenAssign)

section \<open>The generator's visitor for assignments\<close>

text \<open>What \<open>emit\<close> does, in one equation.\<close>

lemma emit_eq:
  "emit text pushed popped comment s =
     (if stackSize (codeEmitter s) < popped then Inl StackUnderflow
      else Inr (s\<lparr>codeEmitter :=
        \<lparr>outputLines = outputLines (codeEmitter s) @ [Instr text comment],
         stackSize = stackSize (codeEmitter s) - popped + pushed\<rparr>\<rparr>))"
  by (simp add: emit_def add_def)

text \<open>
  The lines of one store sequence, and what the sequence adds to the emitter's logical
  stack depth by the counts the generator passes to \<^verbatim>\<open>add\<close>.
\<close>

definition storeLines :: "ISymbol \<Rightarrow> line list" where
  "storeLines sy =
     (if isGlobal sy then
        [Instr ''dup'' None, Instr (''store '' @ showNat (position sy)) None]
      else
        [Instr (''int '' @ showNat (position sy)) None, Instr ''load 0'' None, Instr ''+'' None,
         Instr ''dig 1'' None, Instr ''stores'' None])"

definition declaredEffect :: "ISymbol \<Rightarrow> nat" where
  "declaredEffect sy = (if isGlobal sy then 0 else 2)"

lemma storeSymbol_eq:
  "storeSymbol sy s =
     Inr (s\<lparr>codeEmitter :=
       \<lparr>outputLines = outputLines (codeEmitter s) @ storeLines sy,
        stackSize = stackSize (codeEmitter s) + declaredEffect sy\<rparr>\<rparr>)"
  by (simp add: storeSymbol_def emit_eq storeLines_def declaredEffect_def)

lemma seq_storeSymbol:
  "seq (map storeSymbol xs) s =
     Inr (s\<lparr>codeEmitter :=
       \<lparr>outputLines = outputLines (codeEmitter s) @ concat (map storeLines xs),
        stackSize = stackSize (codeEmitter s) + sum_list (map declaredEffect xs)\<rparr>\<rparr>)"
proof (induction xs arbitrary: s)
  case Nil
  show ?case by simp
next
  case (Cons x xs)
  have "seq (map storeSymbol (x # xs)) s =
        (case storeSymbol x s of Inl e \<Rightarrow> Inl e | Inr s' \<Rightarrow> seq (map storeSymbol xs) s')"
    by simp
  also have "\<dots> = seq (map storeSymbol xs)
       (s\<lparr>codeEmitter :=
          \<lparr>outputLines = outputLines (codeEmitter s) @ storeLines x,
           stackSize = stackSize (codeEmitter s) + declaredEffect x\<rparr>\<rparr>)"
    by (simp only: storeSymbol_eq [of x s] sum.case)
  finally show ?case
    by (simp only: Cons.IH) (simp add: add.assoc)
qed

text \<open>
  The visitor on an \<^verbatim>\<open>assignment-statement\<close> node: NoAssignmentTarget when the node has
  neither annotation; the store sequence of \<^verbatim>\<open>node.symbol\<close> when it is set; otherwise the
  store sequences of \<^verbatim>\<open>node.symbols\<close> in reverse, the array being reversed where it lies.
  The sequences never throw. The logical stack depth is unchanged by the sequence of a global
  symbol and grows by two with the sequence of a local symbol.
\<close>

lemma assignment_post_cases:
  assumes "nodeType node = ''assignment-statement''"
  shows "(symbol node = None \<and> symbols node = None \<longrightarrow>
            visitorsPost node cid s = Inl NoAssignmentTarget) \<and>
         (\<forall>sy. symbol node = Some sy \<longrightarrow>
            visitorsPost node cid s =
              Inr (s\<lparr>codeEmitter :=
                \<lparr>outputLines = outputLines (codeEmitter s) @ storeLines sy,
                 stackSize = stackSize (codeEmitter s) + declaredEffect sy\<rparr>\<rparr>)) \<and>
         (\<forall>a. symbol node = None \<and> symbols node = Some a \<longrightarrow>
            visitorsPost node cid s =
              Inr (s\<lparr>symbolArrays := (symbolArrays s)(a := rev (symbolArrays s a)),
                     codeEmitter :=
                \<lparr>outputLines = outputLines (codeEmitter s) @
                   concat (map storeLines (rev (symbolArrays s a))),
                 stackSize = stackSize (codeEmitter s) +
                   sum_list (map declaredEffect (rev (symbolArrays s a)))\<rparr>\<rparr>))"
  using assms
  by (simp add: visitorsPost.simps assignmentStatementPost_def storeSymbol_eq seq_storeSymbol)

definition localSymbol :: ISymbol where
  "localSymbol = \<lparr>symbolName = Some ''x'', symbolType = Variable, position = 1, isGlobal = False\<rparr>"

definition localAssignment :: node where
  "localAssignment = setSymbol (Some localSymbol) (emptyNode ''assignment-statement'')"

definition oneValueOnStack :: CodeGenerator where
  "oneValueOnStack =
     (newCodeGenerator (\<lambda>_. []) (\<lambda>_. []) (\<lambda>_. []))
       \<lparr>codeEmitter := \<lparr>outputLines = [Instr ''int 7'' None], stackSize = 1\<rparr>\<rparr>"

text \<open>
  The emitter's logical depth at a local symbol: with one value on the stack, the visitor
  emits \<^verbatim>\<open>int 1\<close>, \<^verbatim>\<open>load 0\<close>, \<^verbatim>\<open>+\<close>, \<^verbatim>\<open>dig 1\<close>, \<^verbatim>\<open>stores\<close> and leaves the logical
  depth at 3: the generator passes \<^verbatim>\<open>add\<close> the counts 2 pushed, 1 popped for \<^verbatim>\<open>+\<close>.
\<close>

lemma local_store_logical_depth:
  "visitorsPost localAssignment None oneValueOnStack =
     Inr (oneValueOnStack\<lparr>codeEmitter :=
        \<lparr>outputLines = [Instr ''int 7'' None, Instr ''int 1'' None, Instr ''load 0'' None,
           Instr ''+'' None, Instr ''dig 1'' None, Instr ''stores'' None],
         stackSize = 3\<rparr>\<rparr>)"
  using assignment_post_cases [of localAssignment None oneValueOnStack]
  by (simp add: localAssignment_def emptyNode_def localSymbol_def oneValueOnStack_def
      newCodeGenerator_def storeLines_def declaredEffect_def showNat.simps digitChar_def)

subsection \<open>The store sequences on the target machine\<close>

text \<open>
  The target machine is no part of the repository, and the generator only writes text for it.
  To say what an emitted store sequence does to the compute stack, the seven opcodes that the
  sequences use are given the stack effects of the target assembly (TEAL): values are
  unsigned 64-bit integers or byte strings, the compute stack is a list with its top at the
  head, and scratch space has 256 slots. An instruction that the machine rejects (a missing
  operand, a byte string where an integer is required, an overflow, a slot out of range) has
  no successor state.
\<close>

datatype tealValue = Uint nat | Bytes string

record machine =
  stack :: "tealValue list"
  scratch :: "nat \<Rightarrow> tealValue"



















lemma showNat_1: "showNat 1 = ''1''" "showNat (Suc 0) = ''1''"
  by (simp_all add: showNat.simps digitChar_def)


section \<open>Invariants of the walk and the shape of the output\<close>

subsection \<open>Decimal rendering is injective\<close>

lemma digitChar_code: "d < 10 \<Longrightarrow> of_char (digitChar d) = 48 + d"
proof -
  assume "d < 10"
  then have "d \<in> {0, 1, 2, 3, 4, 5, 6, 7, 8, 9}" by auto
  then show ?thesis by (auto simp: digitChar_def)
qed

lemma digitChar_inj: "a < 10 \<Longrightarrow> b < 10 \<Longrightarrow> digitChar a = digitChar b \<Longrightarrow> a = b"
  using digitChar_code [of a] digitChar_code [of b] by (metis add_left_cancel)

lemma showNat_nonempty: "showNat n \<noteq> []"
  by (subst showNat.simps) simp

lemma showNat_inj: "showNat m = showNat n \<Longrightarrow> m = n"
proof (induction m arbitrary: n rule: showNat.induct)
  case (1 m)
  show ?case
  proof (cases "m < 10")
    case small: True
    show ?thesis
    proof (cases "n < 10")
      case True
      with small "1.prems" show ?thesis
        by (simp add: showNat.simps [of m] showNat.simps [of n] digitChar_inj)
    next
      case False
      with small "1.prems" showNat_nonempty [of "n div 10"] show ?thesis
        by (simp add: showNat.simps [of m] showNat.simps [of n])
    qed
  next
    case large: False
    show ?thesis
    proof (cases "n < 10")
      case True
      with large "1.prems" showNat_nonempty [of "m div 10"] show ?thesis
        by (simp add: showNat.simps [of m] showNat.simps [of n])
    next
      case False
      with large "1.prems" have eq: "showNat (m div 10) = showNat (n div 10)"
        and d: "digitChar (m mod 10) = digitChar (n mod 10)"
        by (simp_all add: showNat.simps [of m] showNat.simps [of n])
      from "1.IH" [OF large eq] have "m div 10 = n div 10" .
      moreover from d have "m mod 10 = n mod 10" by (simp add: digitChar_inj)
      ultimately show ?thesis by (metis div_mult_mod_eq)
    qed
  qed
qed

lemma showNat_eq_iff [simp]: "showNat m = showNat n \<longleftrightarrow> m = n"
  by (auto dest: showNat_inj)

subsection \<open>What a walk leaves behind\<close>

definition labelNames :: "line list \<Rightarrow> string list" where
  "labelNames ls = concat (map (\<lambda>l. case l of Label nm _ \<Rightarrow> [nm] | _ \<Rightarrow> []) ls)"

definition plainLines :: "line list \<Rightarrow> bool" where
  "plainLines ls = list_all (\<lambda>l. case l of Section _ \<Rightarrow> False | Label _ c \<Rightarrow> c = None
                                  | Instr _ _ \<Rightarrow> True) ls"

definition controlLabels :: "nat \<Rightarrow> string list" where
  "controlLabels k = [''else_'' @ showNat k, ''end_'' @ showNat k,
                      ''loop_start_'' @ showNat k, ''loop_end_'' @ showNat k]"

definition idNames :: "nat \<Rightarrow> nat \<Rightarrow> string set" where
  "idNames lo hi = {nm. \<exists>k. lo < k \<and> k \<le> hi \<and> nm \<in> set (controlLabels k)}"

definition walked :: "string list \<Rightarrow> nat \<Rightarrow> CodeGenerator \<Rightarrow> CodeGenerator \<Rightarrow> bool" where
  "walked extra lo s s' \<longleftrightarrow>
     functionNodes s' = functionNodes s \<and> inFunction s' = inFunction s \<and>
     curFunction s' = curFunction s \<and> paramArrays s' = paramArrays s \<and>
     tables s' = tables s \<and>
     lo \<le> controlStatementId s \<and> controlStatementId s \<le> controlStatementId s' \<and>
     (\<exists>new names. outputLines (codeEmitter s') = outputLines (codeEmitter s) @ new \<and>
        plainLines new \<and> labelNames new = names @ extra \<and>
        set names \<subseteq> idNames lo (controlStatementId s') \<and> distinct names)"

lemma labelNames_simps [simp]:
  "labelNames [] = []"
  "labelNames (xs @ ys) = labelNames xs @ labelNames ys"
  "labelNames (Instr t c # xs) = labelNames xs"
  "labelNames (Section c # xs) = labelNames xs"
  "labelNames (Label nm c # xs) = nm # labelNames xs"
  "labelNames (replicate n (Instr t c)) = []"
  by (simp_all add: labelNames_def)

lemma plainLines_simps [simp]:
  "plainLines []"
  "plainLines (xs @ ys) \<longleftrightarrow> plainLines xs \<and> plainLines ys"
  "plainLines (Instr t c # xs) \<longleftrightarrow> plainLines xs"
  "plainLines (Section c # xs) \<longleftrightarrow> False"
  "plainLines (Label nm c # xs) \<longleftrightarrow> c = None \<and> plainLines xs"
  "plainLines (replicate n (Instr t c))"
  by (auto simp: plainLines_def list_all_iff)

lemma controlLabels_inj:
  "nm \<in> set (controlLabels j) \<Longrightarrow> nm \<in> set (controlLabels k) \<Longrightarrow> j = k"
  by (auto simp: controlLabels_def)

lemma idNames_mono: "lo' \<le> lo \<Longrightarrow> hi \<le> hi' \<Longrightarrow> idNames lo hi \<subseteq> idNames lo' hi'"
  by (auto simp: idNames_def) (meson le_trans less_le_trans not_le order.strict_trans1)

lemma idNames_disjoint: "hi \<le> lo' \<Longrightarrow> idNames lo hi \<inter> idNames lo' hi' = {}"
  by (auto simp: idNames_def dest: controlLabels_inj)

lemma idNames_I: "lo < k \<Longrightarrow> k \<le> hi \<Longrightarrow> nm \<in> set (controlLabels k) \<Longrightarrow> nm \<in> idNames lo hi"
  by (auto simp: idNames_def)

lemma idNames_notin: "k \<le> lo \<Longrightarrow> nm \<in> set (controlLabels k) \<Longrightarrow> nm \<notin> idNames lo hi"
  by (auto simp: idNames_def dest: controlLabels_inj)

lemma walked_refl: "walked [] (controlStatementId s) s s"
  by (simp add: walked_def)

lemma walked_weaken:
  assumes a: "walked extra lo s s'" and le: "lo' \<le> lo"
  shows "walked extra lo' s s'"
proof -
  from a obtain new names where
    f: "functionNodes s' = functionNodes s" "inFunction s' = inFunction s"
      "curFunction s' = curFunction s" "paramArrays s' = paramArrays s" "tables s' = tables s"
      "lo \<le> controlStatementId s" "controlStatementId s \<le> controlStatementId s'"
    and o: "outputLines (codeEmitter s') = outputLines (codeEmitter s) @ new"
      "plainLines new" "labelNames new = names @ extra"
      "set names \<subseteq> idNames lo (controlStatementId s')" "distinct names"
    unfolding walked_def by blast
  have sub: "set names \<subseteq> idNames lo' (controlStatementId s')"
    using o(4) idNames_mono [OF le order_refl] by blast
  have ex: "\<exists>new names. outputLines (codeEmitter s') = outputLines (codeEmitter s) @ new \<and>
        plainLines new \<and> labelNames new = names @ extra \<and>
        set names \<subseteq> idNames lo' (controlStatementId s') \<and> distinct names"
    using o sub by blast
  show ?thesis
    unfolding walked_def using f le ex by simp
qed

lemma walked_trans:
  assumes a: "walked [] lo s s1" and b: "walked extra (controlStatementId s1) s1 s2"
  shows "walked extra lo s s2"
proof -
  from a obtain new1 where
    f1: "functionNodes s1 = functionNodes s" "inFunction s1 = inFunction s"
      "curFunction s1 = curFunction s" "paramArrays s1 = paramArrays s" "tables s1 = tables s"
      "lo \<le> controlStatementId s" "controlStatementId s \<le> controlStatementId s1"
    and o1: "outputLines (codeEmitter s1) = outputLines (codeEmitter s) @ new1"
      "plainLines new1" "set (labelNames new1) \<subseteq> idNames lo (controlStatementId s1)"
      "distinct (labelNames new1)"
    unfolding walked_def by auto
  from b obtain new2 names2 where
    f2: "functionNodes s2 = functionNodes s1" "inFunction s2 = inFunction s1"
      "curFunction s2 = curFunction s1" "paramArrays s2 = paramArrays s1" "tables s2 = tables s1"
      "controlStatementId s1 \<le> controlStatementId s2"
    and o2: "outputLines (codeEmitter s2) = outputLines (codeEmitter s1) @ new2"
      "plainLines new2" "labelNames new2 = names2 @ extra"
      "set names2 \<subseteq> idNames (controlStatementId s1) (controlStatementId s2)"
      "distinct names2"
    unfolding walked_def by blast
  have sub1: "set (labelNames new1) \<subseteq> idNames lo (controlStatementId s2)"
    using o1(3) idNames_mono [OF order_refl f2(6), of lo] by blast
  have sub2: "set names2 \<subseteq> idNames lo (controlStatementId s2)"
    using o2(4) idNames_mono [OF _ order_refl, of lo "controlStatementId s1"] f1(6,7) by force
  have disj: "set (labelNames new1) \<inter> set names2 = {}"
    using o1(3) o2(4) idNames_disjoint [OF order_refl, of lo "controlStatementId s1"
        "controlStatementId s2"]
    by blast
  have out: "outputLines (codeEmitter s2) = outputLines (codeEmitter s) @ (new1 @ new2)"
    using o1(1) o2(1) by simp
  have names: "labelNames (new1 @ new2) = (labelNames new1 @ names2) @ extra"
    using o2(3) by simp
  have ex: "\<exists>new names. outputLines (codeEmitter s2) = outputLines (codeEmitter s) @ new \<and>
        plainLines new \<and> labelNames new = names @ extra \<and>
        set names \<subseteq> idNames lo (controlStatementId s2) \<and> distinct names"
    apply (rule exI [of _ "new1 @ new2"], rule exI [of _ "labelNames new1 @ names2"])
    using out names o1(2,4) o2(2,5) sub1 sub2 disj by simp
  show ?thesis
    unfolding walked_def using f1 f2 ex by simp
qed

lemma walked_emit: "emit t a r c s = Inr s' \<Longrightarrow> walked [] (controlStatementId s) s s'"
  by (auto simp: emit_eq walked_def split: if_splits)

lemma walked_emitter_popAll: "emitter popAll s = Inr s' \<Longrightarrow> walked [] (controlStatementId s) s s'"
  by (auto simp: emitter_def popAll_def walked_def)

lemma walked_resetStack:
  "walked [] (controlStatementId s) s (s\<lparr>codeEmitter := resetStack (codeEmitter s)\<rparr>)"
  by (auto simp: resetStack_def walked_def)

lemma walked_emit2:
  "seq [emit t a r c, emit t' a' r' c'] s = Inr s' \<Longrightarrow> walked [] (controlStatementId s) s s'"
  by (auto simp: emit_eq walked_def split: if_splits sum.splits)

lemma walked_numberPost: "numberPost n s = Inr s' \<Longrightarrow> walked [] (controlStatementId s) s s'"
  by (simp add: numberPost_def walked_emit)

lemma walked_stringLiteralPost:
  "stringLiteralPost n s = Inr s' \<Longrightarrow> walked [] (controlStatementId s) s s'"
  by (simp add: stringLiteralPost_def walked_emit)

lemma walked_operationPost:
  "operationPost n s = Inr s' \<Longrightarrow> walked [] (controlStatementId s) s s'"
  by (simp add: operationPost_def Let_def walked_emit)

lemma walked_returnStatementPost:
  "returnStatementPost n s = Inr s' \<Longrightarrow> walked [] (controlStatementId s) s s'"
  by (auto simp: returnStatementPost_def walked_emit split: if_splits option.splits)

lemma walked_accessVariablePost:
  "accessVariablePost n s = Inr s' \<Longrightarrow> walked [] (controlStatementId s) s s'"
  by (auto simp: accessVariablePost_def emit_eq walked_def split: if_splits option.splits sum.splits)

lemma walked_callsub: "callsub n s = Inr s' \<Longrightarrow> walked [] (controlStatementId s) s s'"
  by (simp add: callsub_def walked_emit)

lemma walked_itxn_field: "itxn_field n s = Inr s' \<Longrightarrow> walked [] (controlStatementId s) s s'"
  by (auto simp: itxn_field_def walked_emit split: option.splits list.splits)

definition walkedPre :: "node \<Rightarrow> nat option \<Rightarrow> CodeGenerator \<Rightarrow> CodeGenerator \<Rightarrow> bool" where
  "walkedPre n c s s' \<longleftrightarrow>
     (if nodeType n = ''while-statement'' then
        c = Some (controlStatementId s + 1) \<and>
        s' = s\<lparr>controlStatementId := controlStatementId s + 1,
               codeEmitter := label (''loop_start_'' @ showNat (controlStatementId s + 1)) None
                                (codeEmitter s)\<rparr>
      else walked [] (controlStatementId s) s s')"

definition walkedPost :: "node \<Rightarrow> nat option \<Rightarrow> CodeGenerator \<Rightarrow> CodeGenerator \<Rightarrow> bool" where
  "walkedPost n c s s' \<longleftrightarrow>
     (if nodeType n = ''while-statement'' then
        walked [''loop_end_'' @ strNat c] (controlStatementId s) s s'
      else walked [] (controlStatementId s) s s')"


lemma bracket_names:
  assumes L1: "set L1 \<subseteq> idNames k c1" "distinct L1"
    and L2: "set L2 \<subseteq> idNames c1 c2" "distinct L2"
    and a: "a \<in> set (controlLabels k)" and b: "b \<in> set (controlLabels k)" and ab: "a \<noteq> b"
    and le: "lo < k" "k \<le> c1" "c1 \<le> c2"
  shows "set (a # b # L1 @ L2) \<subseteq> idNames lo c2" and "distinct (a # b # L1 @ L2)"
proof -
  have sub1: "set L1 \<subseteq> idNames lo c2"
    using L1(1) idNames_mono [of lo k c1 c2] le by auto
  have sub2: "set L2 \<subseteq> idNames lo c2"
    using L2(1) idNames_mono [of lo c1 c2 c2] le by auto
  have kle: "k \<le> c2" using le by simp
  show "set (a # b # L1 @ L2) \<subseteq> idNames lo c2"
    using sub1 sub2 idNames_I [OF le(1) kle a] idNames_I [OF le(1) kle b] by simp
  have n1: "a \<notin> set L1" "b \<notin> set L1"
    using L1(1) idNames_notin [OF order_refl a] idNames_notin [OF order_refl b] by blast+
  have n2: "a \<notin> set L2" "b \<notin> set L2"
    using L2(1) idNames_notin [OF le(2) a] idNames_notin [OF le(2) b] by blast+
  have disj: "set L1 \<inter> set L2 = {}"
    using L1(1) L2(1) idNames_disjoint [OF order_refl, of k c1 c2] by blast
  show "distinct (a # b # L1 @ L2)"
    using L1(2) L2(2) n1 n2 disj ab by simp
qed

lemma walked_D:
  assumes "walked extra lo s s'"
  obtains new names where
    "functionNodes s' = functionNodes s" "inFunction s' = inFunction s"
    "curFunction s' = curFunction s" "paramArrays s' = paramArrays s" "tables s' = tables s"
    "lo \<le> controlStatementId s" "controlStatementId s \<le> controlStatementId s'"
    "outputLines (codeEmitter s') = outputLines (codeEmitter s) @ new"
    "plainLines new" "labelNames new = names @ extra"
    "set names \<subseteq> idNames lo (controlStatementId s')" "distinct names"
  using assms unfolding walked_def by blast

lemma walked_I:
  assumes "functionNodes s' = functionNodes s" "inFunction s' = inFunction s"
    "curFunction s' = curFunction s" "paramArrays s' = paramArrays s" "tables s' = tables s"
    "lo \<le> controlStatementId s" "controlStatementId s \<le> controlStatementId s'"
    "outputLines (codeEmitter s') = outputLines (codeEmitter s) @ new"
    "plainLines new" "labelNames new = names @ extra"
    "set names \<subseteq> idNames lo (controlStatementId s')" "distinct names"
  shows "walked extra lo s s'"
  using assms unfolding walked_def by blast

lemma walked_while:
  assumes pre: "s1 = s\<lparr>controlStatementId := controlStatementId s + 1,
               codeEmitter := label (''loop_start_'' @ showNat (controlStatementId s + 1)) None
                                (codeEmitter s)\<rparr>"
    and ch: "walked [] (controlStatementId s1) s1 s2"
    and post: "walked [''loop_end_'' @ showNat (controlStatementId s + 1)] (controlStatementId s2) s2 s3"
  shows "walked [] (controlStatementId s) s s3"
proof -
  define k where "k = controlStatementId s + 1"
  define a where "a = ''loop_start_'' @ showNat k"
  define b where "b = ''loop_end_'' @ showNat k"
  have ab: "a \<in> set (controlLabels k)" "b \<in> set (controlLabels k)" "a \<noteq> b"
    by (simp_all add: a_def b_def controlLabels_def)
  have pre': "s1 = s\<lparr>controlStatementId := k, codeEmitter := label a None (codeEmitter s)\<rparr>"
    using pre by (simp add: k_def a_def)
  have post': "walked [b] (controlStatementId s2) s2 s3"
    using post by (simp add: k_def b_def)
  have c1: "controlStatementId s1 = k" using pre' by simp
  have lo: "controlStatementId s < k" by (simp add: k_def)
  from ch [unfolded c1] obtain new1 names1 where
    f1: "functionNodes s2 = functionNodes s1" "inFunction s2 = inFunction s1"
      "curFunction s2 = curFunction s1" "paramArrays s2 = paramArrays s1" "tables s2 = tables s1"
      "k \<le> controlStatementId s1" "controlStatementId s1 \<le> controlStatementId s2"
    and o1: "outputLines (codeEmitter s2) = outputLines (codeEmitter s1) @ new1"
      "plainLines new1" "labelNames new1 = names1 @ []"
      "set names1 \<subseteq> idNames k (controlStatementId s2)" "distinct names1"
    by (rule walked_D)
  from post' obtain new2 names2 where
    f2: "functionNodes s3 = functionNodes s2" "inFunction s3 = inFunction s2"
      "curFunction s3 = curFunction s2" "paramArrays s3 = paramArrays s2" "tables s3 = tables s2"
      "controlStatementId s2 \<le> controlStatementId s2" "controlStatementId s2 \<le> controlStatementId s3"
    and o2: "outputLines (codeEmitter s3) = outputLines (codeEmitter s2) @ new2"
      "plainLines new2" "labelNames new2 = names2 @ [b]"
      "set names2 \<subseteq> idNames (controlStatementId s2) (controlStatementId s3)" "distinct names2"
    by (rule walked_D)
  have k2: "k \<le> controlStatementId s2" using f1(7) c1 by simp
  note br = bracket_names [OF o1(4,5) o2(4,5) ab lo k2 f2(7)]
  show ?thesis
  proof (rule walked_I [where new = "Label a None # new1 @ new2"
        and names = "a # names1 @ names2 @ [b]"])
    show "outputLines (codeEmitter s3) = outputLines (codeEmitter s) @ Label a None # new1 @ new2"
      using o1(1) o2(1) pre' by (simp add: label_def)
    show "plainLines (Label a None # new1 @ new2)" using o1(2) o2(2) by simp
    show "labelNames (Label a None # new1 @ new2) = (a # names1 @ names2 @ [b]) @ []"
      using o1(3) o2(3) by simp
    show "set (a # names1 @ names2 @ [b]) \<subseteq> idNames (controlStatementId s) (controlStatementId s3)"
      using br(1) by simp
    show "distinct (a # names1 @ names2 @ [b])" using br(2) by simp
    show "controlStatementId s \<le> controlStatementId s3" using lo k2 f2(7) by simp
  qed (simp_all add: f1 f2 pre')
qed

lemma walked_if:
  assumes s1: "s1 = s\<lparr>controlStatementId := controlStatementId s + 1\<rparr>"
    and bz: "emit (''bz else_'' @ showNat (controlStatementId s1)) 0 1 None s1 = Inr s2"
    and ifB: "walked [] (controlStatementId s2) s2 s3"
    and mid: "seq [emit (''b end_'' @ showNat (controlStatementId s1)) 0 0 None,
                   emitter (label (''else_'' @ showNat (controlStatementId s1)) None)] s3 = Inr s4"
    and elseB: "walked [] (controlStatementId s4) s4 s5"
    and fin: "emitter (label (''end_'' @ showNat (controlStatementId s1)) None) s5 = Inr s6"
  shows "walked [] (controlStatementId s) s s6"
proof -
  define k where "k = controlStatementId s + 1"
  define a where "a = ''else_'' @ showNat k"
  define b where "b = ''end_'' @ showNat k"
  define bzI where "bzI = Instr (''bz else_'' @ showNat k) None"
  define bI where "bI = Instr (''b end_'' @ showNat k) None"
  have ab: "a \<in> set (controlLabels k)" "b \<in> set (controlLabels k)" "a \<noteq> b"
    by (simp_all add: a_def b_def controlLabels_def)
  have c1: "controlStatementId s1 = k" using s1 by (simp add: k_def)
  have lo: "controlStatementId s < k" by (simp add: k_def)
  have s2: "s2 = s1\<lparr>codeEmitter :=
        \<lparr>outputLines = outputLines (codeEmitter s1) @ [bzI],
         stackSize = stackSize (codeEmitter s1) - 1 + 0\<rparr>\<rparr>"
    using bz unfolding c1 bzI_def by (simp add: emit_eq split: if_splits)
  have c2: "controlStatementId s2 = k" using s2 c1 by simp
  from ifB [unfolded c2] obtain new1 names1 where
    f1: "functionNodes s3 = functionNodes s2" "inFunction s3 = inFunction s2"
      "curFunction s3 = curFunction s2" "paramArrays s3 = paramArrays s2" "tables s3 = tables s2"
      "k \<le> controlStatementId s2" "controlStatementId s2 \<le> controlStatementId s3"
    and o1: "outputLines (codeEmitter s3) = outputLines (codeEmitter s2) @ new1"
      "plainLines new1" "labelNames new1 = names1 @ []"
      "set names1 \<subseteq> idNames k (controlStatementId s3)" "distinct names1"
    by (rule walked_D)
  have s4: "s4 = s3\<lparr>codeEmitter :=
        \<lparr>outputLines = outputLines (codeEmitter s3) @ [bI, Label a None],
         stackSize = stackSize (codeEmitter s3)\<rparr>\<rparr>"
    using mid unfolding c1 bI_def a_def by (simp add: emit_eq emitter_def label_def split: if_splits)
  have c4: "controlStatementId s4 = controlStatementId s3" using s4 by simp
  from elseB [unfolded c4] obtain new2 names2 where
    f2: "functionNodes s5 = functionNodes s4" "inFunction s5 = inFunction s4"
      "curFunction s5 = curFunction s4" "paramArrays s5 = paramArrays s4" "tables s5 = tables s4"
      "controlStatementId s3 \<le> controlStatementId s4" "controlStatementId s4 \<le> controlStatementId s5"
    and o2: "outputLines (codeEmitter s5) = outputLines (codeEmitter s4) @ new2"
      "plainLines new2" "labelNames new2 = names2 @ []"
      "set names2 \<subseteq> idNames (controlStatementId s3) (controlStatementId s5)" "distinct names2"
    by (rule walked_D)
  have s6: "s6 = s5\<lparr>codeEmitter := label b None (codeEmitter s5)\<rparr>"
    using fin unfolding c1 b_def by (simp add: emitter_def)
  have k3: "k \<le> controlStatementId s3" using f1(7) c2 by simp
  have c35: "controlStatementId s3 \<le> controlStatementId s5" using f2(7) c4 by simp
  note br = bracket_names [OF o1(4,5) o2(4,5) ab lo k3 c35]
  show ?thesis
  proof (rule walked_I [where new = "bzI # new1 @ [bI, Label a None] @ new2 @ [Label b None]"
        and names = "names1 @ [a] @ names2 @ [b]"])
    show "outputLines (codeEmitter s6) =
        outputLines (codeEmitter s) @ bzI # new1 @ [bI, Label a None] @ new2 @ [Label b None]"
      using o1(1) o2(1) s1 s2 s4 s6 by (simp add: label_def)
    show "plainLines (bzI # new1 @ [bI, Label a None] @ new2 @ [Label b None])"
      using o1(2) o2(2) by (simp add: bzI_def bI_def)
    show "labelNames (bzI # new1 @ [bI, Label a None] @ new2 @ [Label b None]) =
        (names1 @ [a] @ names2 @ [b]) @ []"
      using o1(3) o2(3) by (simp add: bzI_def bI_def)
    show "set (names1 @ [a] @ names2 @ [b]) \<subseteq> idNames (controlStatementId s) (controlStatementId s6)"
      using br(1) s6 by (simp add: label_def)
    show "distinct (names1 @ [a] @ names2 @ [b])" using br(2) by auto
    show "controlStatementId s \<le> controlStatementId s6" using lo k3 c35 s6 by (simp add: label_def)
  qed (simp_all add: f1 f2 s1 s2 s4 s6 label_def)
qed

lemma storeLines_plain [simp]:
  "labelNames (storeLines sy) = []" "plainLines (storeLines sy)"
  by (simp_all add: storeLines_def)

lemma concat_storeLines_plain [simp]:
  "labelNames (concat (map storeLines xs)) = []" "plainLines (concat (map storeLines xs))"
  by (induction xs) simp_all

lemma walked_assignmentStatementPost:
  "assignmentStatementPost n s = Inr s' \<Longrightarrow> walked [] (controlStatementId s) s s'"
  by (auto simp: assignmentStatementPost_def storeSymbol_eq seq_storeSymbol walked_def Let_def
      split: option.splits)


subsection \<open>The visitor table, entry by entry\<close>

lemma visitorsPost_number:
  "nodeType node = ''number'' \<Longrightarrow> visitorsPost node cid s = numberPost node s"
  by (simp add: visitorsPost.simps)

lemma visitorsPost_stringLiteral:
  "nodeType node = ''string-literal'' \<Longrightarrow> visitorsPost node cid s = stringLiteralPost node s"
  by (simp add: visitorsPost.simps)

lemma visitorsPost_operation:
  "nodeType node = ''operation'' \<Longrightarrow> visitorsPost node cid s = operationPost node s"
  by (simp add: visitorsPost.simps)

lemma visitorsPost_exprStatement:
  "nodeType node = ''expr-statement'' \<Longrightarrow> visitorsPost node cid s = emitter popAll s"
  by (simp add: visitorsPost.simps)

lemma visitorsPost_returnStatement:
  "nodeType node = ''return-statement'' \<Longrightarrow>
     visitorsPost node cid s = returnStatementPost node s"
  by (simp add: visitorsPost.simps)

lemma visitorsPost_declareVariable:
  "nodeType node = ''declare-variable'' \<Longrightarrow>
     visitorsPost node cid s =
       (case (case initializer node of None \<Rightarrow> Inr s | Some i \<Rightarrow> internalGenerateCode i s) of
          Inl e \<Rightarrow> Inl e
        | Inr s \<Rightarrow> emitter popAll s)"
  by (simp add: visitorsPost.simps)

lemma visitorsPost_accessVariable:
  "nodeType node = ''access-variable'' \<Longrightarrow> visitorsPost node cid s = accessVariablePost node s"
  by (simp add: visitorsPost.simps)

lemma visitorsPost_assignmentStatement:
  "nodeType node = ''assignment-statement'' \<Longrightarrow>
     visitorsPost node cid s = assignmentStatementPost node s"
  by (simp add: visitorsPost.simps)

lemma visitorsPost_ifStatement:
  "nodeType node = ''if-statement'' \<Longrightarrow>
     visitorsPost node cid s =
       (let s = s\<lparr>controlStatementId := controlStatementId s + 1\<rparr>;
            cid = controlStatementId s
        in case emit (''bz else_'' @ showNat cid) 0 1 None s of
             Inl e \<Rightarrow> Inl e
           | Inr s \<Rightarrow>
               (case (case ifBlock node of None \<Rightarrow> Inl TypeError
                      | Some b \<Rightarrow> internalGenerateCode b s) of
                  Inl e \<Rightarrow> Inl e
                | Inr s \<Rightarrow>
                    (case seq [emit (''b end_'' @ showNat cid) 0 0 None,
                               emitter (label (''else_'' @ showNat cid) None)] s of
                       Inl e \<Rightarrow> Inl e
                     | Inr s \<Rightarrow>
                         (case (case elseBlock node of None \<Rightarrow> Inr s
                                | Some b \<Rightarrow> internalGenerateCode b s) of
                            Inl e \<Rightarrow> Inl e
                          | Inr s \<Rightarrow> emitter (label (''end_'' @ showNat cid) None) s))))"
  by (simp add: visitorsPost.simps)

lemma visitorsPost_whileStatement:
  "nodeType node = ''while-statement'' \<Longrightarrow>
     visitorsPost node cid s =
       (case children node of
          None \<Rightarrow> Inl TypeError
        | Some cs \<Rightarrow>
            (case emit (''bz loop_end_'' @ strNat cid) 0 (if length cs > 0 then 1 else 0) None s of
               Inl e \<Rightarrow> Inl e
             | Inr s \<Rightarrow>
                 (case (case body node of None \<Rightarrow> Inl TypeError
                        | Some b \<Rightarrow> internalGenerateCode b s) of
                    Inl e \<Rightarrow> Inl e
                  | Inr s \<Rightarrow>
                      seq [emit (''b loop_start_'' @ strNat cid) 0 0 None,
                           emitter (label (''loop_end_'' @ strNat cid) None)] s)))"
  by (simp add: visitorsPost.simps)

lemma visitorsPost_functionCall:
  "nodeType node = ''function-call'' \<Longrightarrow>
     visitorsPost node cid s =
       (if isBuiltin (name node) then builtins node s else callsub node s)"
  by (simp add: visitorsPost.simps)

lemma visitorsPost_other:
  "nodeType node \<notin> set [''number'', ''string-literal'', ''operation'', ''expr-statement'',
      ''return-statement'', ''declare-variable'', ''access-variable'', ''assignment-statement'',
      ''if-statement'', ''while-statement'', ''function-call''] \<Longrightarrow>
     visitorsPost node cid s = Inr s"
  by (simp add: visitorsPost.simps)

lemma visitorsPre_reset:
  "nodeType node \<in> set [''expr-statement'', ''return-statement'', ''declare-variable''] \<Longrightarrow>
     visitorsPre node s = Inr (s\<lparr>codeEmitter := resetStack (codeEmitter s)\<rparr>, None)"
  by (auto simp: visitorsPre.simps)

lemma visitorsPre_whileStatement:
  "nodeType node = ''while-statement'' \<Longrightarrow> visitorsPre node s = Inr (whileStatementPre node s)"
  by (simp add: visitorsPre.simps)

lemma visitorsPre_functionCall:
  "nodeType node = ''function-call'' \<Longrightarrow>
     visitorsPre node s =
       (if \<not> isBuiltin (name node) then
          (case generateArgs node s of Inl e \<Rightarrow> Inl e | Inr s \<Rightarrow> Inr (s, None))
        else Inr (s, None))"
  by (simp add: visitorsPre.simps)

lemma visitorsPre_other:
  "nodeType node \<notin> set [''expr-statement'', ''return-statement'', ''declare-variable'',
      ''while-statement'', ''function-call''] \<Longrightarrow>
     visitorsPre node s = Inr (s, None)"
  by (simp add: visitorsPre.simps)

lemma builtins_appGlobalPut:
  "name node = Some ''appGlobalPut'' \<Longrightarrow>
     builtins node s =
       (case generateArgs node s of Inl e \<Rightarrow> Inl e
        | Inr s \<Rightarrow> seq [emit ''app_global_put'' 0 2 None, emit ''int 0'' 1 0 None] s)"
  by (simp add: builtins.simps)

lemma builtins_appGlobalGet:
  "name node = Some ''appGlobalGet'' \<Longrightarrow>
     builtins node s =
       (case generateArgs node s of Inl e \<Rightarrow> Inl e
        | Inr s \<Rightarrow> emit ''app_global_get'' 1 1 None s)"
  by (simp add: builtins.simps)

lemma builtins_appGlobalDel:
  "name node = Some ''appGlobalDel'' \<Longrightarrow>
     builtins node s =
       (case generateArgs node s of Inl e \<Rightarrow> Inl e
        | Inr s \<Rightarrow> seq [emit ''app_global_del'' 0 1 None, emit ''int 0'' 1 0 None] s)"
  by (simp add: builtins.simps)

lemma builtins_appLocalPut:
  "name node = Some ''appLocalPut'' \<Longrightarrow>
     builtins node s =
       (case generateArgs node s of Inl e \<Rightarrow> Inl e
        | Inr s \<Rightarrow> seq [emit ''app_local_put'' 0 2 None, emit ''int 0'' 1 0 None] s)"
  by (simp add: builtins.simps)

lemma builtins_appLocalGet:
  "name node = Some ''appLocalGet'' \<Longrightarrow>
     builtins node s =
       (case generateArgs node s of Inl e \<Rightarrow> Inl e
        | Inr s \<Rightarrow> emit ''app_local_get'' 1 2 None s)"
  by (simp add: builtins.simps)

lemma builtins_appLocalDel:
  "name node = Some ''appLocalDel'' \<Longrightarrow>
     builtins node s =
       (case generateArgs node s of Inl e \<Rightarrow> Inl e
        | Inr s \<Rightarrow> seq [emit ''app_local_del'' 0 2 None, emit ''int 0'' 1 0 None] s)"
  by (simp add: builtins.simps)

lemma builtins_btoi:
  "name node = Some ''btoi'' \<Longrightarrow>
     builtins node s =
       (case generateArgs node s of Inl e \<Rightarrow> Inl e
        | Inr s \<Rightarrow> emit ''btoi'' 1 1 None s)"
  by (simp add: builtins.simps)

lemma builtins_itob:
  "name node = Some ''itob'' \<Longrightarrow>
     builtins node s =
       (case generateArgs node s of Inl e \<Rightarrow> Inl e
        | Inr s \<Rightarrow> emit ''itob'' 1 1 None s)"
  by (simp add: builtins.simps)

lemma builtins_exit:
  "name node = Some ''exit'' \<Longrightarrow>
     builtins node s =
       (case generateArgs node s of Inl e \<Rightarrow> Inl e
        | Inr s \<Rightarrow> emit ''return'' 0 0 None s)"
  by (simp add: builtins.simps)

lemma builtins_itxn_begin:
  "name node = Some ''itxn_begin'' \<Longrightarrow>
     builtins node s = seq [emit ''itxn_begin'' 0 0 None, emit ''int 0'' 1 0 None] s"
  by (simp add: builtins.simps)

lemma builtins_itxn_field:
  "name node = Some ''itxn_field'' \<Longrightarrow> builtins node s = itxn_field node s"
  by (simp add: builtins.simps)

lemma builtins_itxn_submit:
  "name node = Some ''itxn_submit'' \<Longrightarrow>
     builtins node s = seq [emit ''itxn_submit'' 0 0 None, emit ''int 0'' 1 0 None] s"
  by (simp add: builtins.simps)

lemma builtins_other:
  "name node \<notin> set [Some ''appGlobalPut'', Some ''appGlobalGet'', Some ''appGlobalDel'',
      Some ''appLocalPut'', Some ''appLocalGet'', Some ''appLocalDel'', Some ''btoi'', Some ''itob'',
      Some ''exit'', Some ''itxn_begin'', Some ''itxn_field'', Some ''itxn_submit''] \<Longrightarrow>
     builtins node s = inheritedMember node s"
  by (simp add: builtins.simps)

lemma twelve_cases:
  assumes "t = a1 \<Longrightarrow> R" "t = a2 \<Longrightarrow> R" "t = a3 \<Longrightarrow> R" "t = a4 \<Longrightarrow> R" "t = a5 \<Longrightarrow> R"
    "t = a6 \<Longrightarrow> R" "t = a7 \<Longrightarrow> R" "t = a8 \<Longrightarrow> R" "t = a9 \<Longrightarrow> R" "t = a10 \<Longrightarrow> R"
    "t = a11 \<Longrightarrow> R" "t = a12 \<Longrightarrow> R"
    "t \<notin> set [a1, a2, a3, a4, a5, a6, a7, a8, a9, a10, a11, a12] \<Longrightarrow> R"
  shows R
proof (cases "t \<in> set [a1, a2, a3, a4, a5, a6, a7, a8, a9, a10, a11, a12]")
  case True
  then have "t = a1 \<or> t = a2 \<or> t = a3 \<or> t = a4 \<or> t = a5 \<or> t = a6 \<or> t = a7 \<or> t = a8 \<or>
      t = a9 \<or> t = a10 \<or> t = a11 \<or> t = a12" by simp
  with assms(1-12) show R by blast
next
  case False
  with assms(13) show R .
qed

lemmas builtin_cases =
  twelve_cases [of _ "Some ''appGlobalPut''" _ "Some ''appGlobalGet''" "Some ''appGlobalDel''"
    "Some ''appLocalPut''" "Some ''appLocalGet''" "Some ''appLocalDel''" "Some ''btoi''"
    "Some ''itob''" "Some ''exit''" "Some ''itxn_begin''" "Some ''itxn_field''"
    "Some ''itxn_submit''"]

lemma walked_after_args:
  assumes run: "(case generateArgs node s of Inl e \<Rightarrow> Inl e | Inr s1 \<Rightarrow> k s1) = Inr s'"
    and args: "\<And>s1. generateArgs node s = Inr s1 \<Longrightarrow> walked [] (controlStatementId s) s s1"
    and tail: "\<And>s1. k s1 = Inr s' \<Longrightarrow> walked [] (controlStatementId s1) s1 s'"
  shows "walked [] (controlStatementId s) s s'"
proof -
  from run obtain s1 where a: "generateArgs node s = Inr s1" and b: "k s1 = Inr s'"
    by (auto split: sum.splits)
  from walked_trans [OF args [OF a] tail [OF b]] show ?thesis .
qed

lemma eleven_cases:
  assumes "t = a1 \<Longrightarrow> R" "t = a2 \<Longrightarrow> R" "t = a3 \<Longrightarrow> R" "t = a4 \<Longrightarrow> R" "t = a5 \<Longrightarrow> R"
    "t = a6 \<Longrightarrow> R" "t = a7 \<Longrightarrow> R" "t = a8 \<Longrightarrow> R" "t = a9 \<Longrightarrow> R" "t = a10 \<Longrightarrow> R"
    "t = a11 \<Longrightarrow> R" "t \<notin> set [a1, a2, a3, a4, a5, a6, a7, a8, a9, a10, a11] \<Longrightarrow> R"
  shows R
proof (cases "t \<in> set [a1, a2, a3, a4, a5, a6, a7, a8, a9, a10, a11]")
  case True
  then have "t = a1 \<or> t = a2 \<or> t = a3 \<or> t = a4 \<or> t = a5 \<or> t = a6 \<or> t = a7 \<or> t = a8 \<or>
      t = a9 \<or> t = a10 \<or> t = a11" by simp
  with assms(1-11) show R by blast
next
  case False
  with assms(12) show R .
qed

lemmas nodeType_cases =
  eleven_cases [of _ "''number''" _ "''string-literal''" "''operation''" "''expr-statement''"
    "''return-statement''" "''declare-variable''" "''access-variable''"
    "''assignment-statement''" "''if-statement''" "''while-statement''" "''function-call''"]

lemma walk_invariant:
  "internalGenerateCode n s = Inr s' \<Longrightarrow> walked [] (controlStatementId s) s s'"
  "generateEach ns s = Inr s' \<Longrightarrow> walked [] (controlStatementId s) s s'"
  "generateArgs n s = Inr s' \<Longrightarrow> walked [] (controlStatementId s) s s'"
  "visitorsPre n s = Inr (s', c') \<Longrightarrow> walkedPre n c' s s'"
  "visitorsPost n c s = Inr s' \<Longrightarrow> walkedPost n c s s'"
  "builtins n s = Inr s' \<Longrightarrow> walked [] (controlStatementId s) s s'"
proof (induction n s and ns s and n s and n s and n c s and n s
    arbitrary: s' and s' and s' and s' c' and s' and s'
    rule: internalGenerateCode_generateEach_generateArgs_visitorsPre_visitorsPost_builtins.induct)
  case (1 node s)
  from "1.prems" obtain s1 c1 s2 where
    pre: "visitorsPre node s = Inr (s1, c1)"
    and ch: "(case children node of None \<Rightarrow> Inr s1 | Some cs \<Rightarrow> generateEach cs s1) = Inr s2"
    and post: "visitorsPost node c1 s2 = Inr s'"
    by (auto simp: internalGenerateCode.simps split: sum.splits prod.splits)
  have A: "walkedPre node c1 s s1" using "1.IH"(1) [OF pre] .
  have B: "walked [] (controlStatementId s1) s1 s2"
  proof (cases "children node")
    case None
    with ch show ?thesis by (simp add: walked_refl)
  next
    case (Some cs)
    with ch have "generateEach cs s1 = Inr s2" by simp
    from "1.IH"(2) [OF pre refl Some this] show ?thesis .
  qed
  have C: "walkedPost node c1 s2 s'" using "1.IH"(3) [OF pre refl ch post] .
  show ?case
  proof (cases "nodeType node = ''while-statement''")
    case True
    with A have c1: "c1 = Some (controlStatementId s + 1)"
      and s1: "s1 = s\<lparr>controlStatementId := controlStatementId s + 1,
               codeEmitter := label (''loop_start_'' @ showNat (controlStatementId s + 1)) None
                                (codeEmitter s)\<rparr>"
      by (simp_all add: walkedPre_def)
    from C True c1
    have "walked [''loop_end_'' @ showNat (controlStatementId s + 1)] (controlStatementId s2) s2 s'"
      by (simp add: walkedPost_def strNat_def)
    from walked_while [OF s1 B this] show ?thesis .
  next
    case False
    with A C have "walked [] (controlStatementId s) s s1" "walked [] (controlStatementId s2) s2 s'"
      by (simp_all add: walkedPre_def walkedPost_def)
    then show ?thesis using B by (blast intro: walked_trans)
  qed
next
  case (2 s)
  then show ?case by (simp add: walked_refl)
next
  case (3 child rest s)
  from "3.prems" obtain s1 where a: "internalGenerateCode child s = Inr s1"
    and b: "generateEach rest s1 = Inr s'"
    by (auto split: sum.splits)
  from walked_trans [OF "3.IH"(1) [OF a] "3.IH"(2) [OF a b]] show ?case .
next
  case (4 node s)
  show ?case
  proof (cases "functionArgs node")
    case None
    with "4.prems" show ?thesis by (simp add: generateArgs.simps walked_refl)
  next
    case (Some as)
    with "4.prems" have "generateEach as s = Inr s'" by (simp add: generateArgs.simps)
    from "4.IH" [OF Some this] show ?thesis .
  qed
next
  case (5 node s)
  show ?case
    using "5.prems" "5.IH"
    by (auto simp: visitorsPre.simps walkedPre_def whileStatementPre_def Let_def
        walked_resetStack walked_refl
        split: if_splits sum.splits)
next
  case (6 node cid s)
  show ?case
  proof (rule nodeType_cases [of "nodeType node"])
    assume t: "nodeType node = ''number''"
    with "6.prems" show ?thesis
      by (simp add: visitorsPost_number walkedPost_def walked_numberPost)
  next
    assume t: "nodeType node = ''string-literal''"
    with "6.prems" show ?thesis
      by (simp add: visitorsPost_stringLiteral walkedPost_def walked_stringLiteralPost)
  next
    assume t: "nodeType node = ''operation''"
    with "6.prems" show ?thesis
      by (simp add: visitorsPost_operation walkedPost_def walked_operationPost)
  next
    assume t: "nodeType node = ''expr-statement''"
    with "6.prems" show ?thesis
      by (simp add: visitorsPost_exprStatement walkedPost_def walked_emitter_popAll)
  next
    assume t: "nodeType node = ''return-statement''"
    with "6.prems" show ?thesis
      by (simp add: visitorsPost_returnStatement walkedPost_def walked_returnStatementPost)
  next
    assume t: "nodeType node = ''declare-variable''"
    from "6.prems" obtain s1 where
      a: "(case initializer node of None \<Rightarrow> Inr s | Some i \<Rightarrow> internalGenerateCode i s) = Inr s1"
      and b: "emitter popAll s1 = Inr s'"
      by (simp add: visitorsPost_declareVariable [OF t] split: sum.splits)
    have "walked [] (controlStatementId s) s s1"
    proof (cases "initializer node")
      case None
      with a show ?thesis by (simp add: walked_refl)
    next
      case (Some i)
      with a have "internalGenerateCode i s = Inr s1" by simp
      from "6.IH"(1) [OF _ _ _ _ _ t Some this] t show ?thesis by simp
    qed
    from walked_trans [OF this walked_emitter_popAll [OF b]] t show ?thesis
      by (simp add: walkedPost_def)
  next
    assume t: "nodeType node = ''access-variable''"
    with "6.prems" show ?thesis
      by (simp add: visitorsPost_accessVariable walkedPost_def walked_accessVariablePost)
  next
    assume t: "nodeType node = ''assignment-statement''"
    with "6.prems" show ?thesis
      by (simp add: visitorsPost_assignmentStatement walkedPost_def
          walked_assignmentStatementPost)
  next
    assume t: "nodeType node = ''if-statement''"
    define s1 where "s1 = s\<lparr>controlStatementId := controlStatementId s + 1\<rparr>"
    from "6.prems" obtain s2 s3 s4 s5 where
      bz: "emit (''bz else_'' @ showNat (controlStatementId s1)) 0 1 None s1 = Inr s2"
      and ifB: "(case ifBlock node of None \<Rightarrow> Inl TypeError
                 | Some b \<Rightarrow> internalGenerateCode b s2) = Inr s3"
      and mid: "seq [emit (''b end_'' @ showNat (controlStatementId s1)) 0 0 None,
                     emitter (label (''else_'' @ showNat (controlStatementId s1)) None)] s3 = Inr s4"
      and elseB: "(case elseBlock node of None \<Rightarrow> Inr s4
                   | Some b \<Rightarrow> internalGenerateCode b s4) = Inr s5"
      and fin: "emitter (label (''end_'' @ showNat (controlStatementId s1)) None) s5 = Inr s'"
      unfolding visitorsPost_ifStatement [OF t] Let_def s1_def [symmetric]
      by (auto split: sum.splits)
    have W1: "walked [] (controlStatementId s2) s2 s3"
    proof (cases "ifBlock node")
      case None
      with ifB show ?thesis by simp
    next
      case (Some b)
      with ifB have "internalGenerateCode b s2 = Inr s3" by simp
      from "6.IH"(2) [OF _ _ _ _ _ _ _ _ t s1_def refl bz Some this] t show ?thesis by simp
    qed
    have W2: "walked [] (controlStatementId s4) s4 s5"
    proof (cases "elseBlock node")
      case None
      with elseB show ?thesis by (simp add: walked_refl)
    next
      case (Some b)
      with elseB have "internalGenerateCode b s4 = Inr s5" by simp
      from "6.IH"(3) [OF _ _ _ _ _ _ _ _ t s1_def refl bz ifB mid Some this] t
      show ?thesis by simp
    qed
    from walked_if [OF s1_def bz W1 mid W2 fin] t show ?thesis
      by (simp add: walkedPost_def)
  next
    assume t: "nodeType node = ''while-statement''"
    from "6.prems" obtain cs s1 s2 where
      cs: "children node = Some cs"
      and bz: "emit (''bz loop_end_'' @ strNat cid) 0 (if length cs > 0 then 1 else 0) None s = Inr s1"
      and bd: "(case body node of None \<Rightarrow> Inl TypeError
                | Some b \<Rightarrow> internalGenerateCode b s1) = Inr s2"
      and fin: "seq [emit (''b loop_start_'' @ strNat cid) 0 0 None,
                     emitter (label (''loop_end_'' @ strNat cid) None)] s2 = Inr s'"
      unfolding visitorsPost_whileStatement [OF t]
      by (auto split: sum.splits option.splits)
    have W0: "walked [] (controlStatementId s) s s1" using bz by (rule walked_emit)
    have W1: "walked [] (controlStatementId s1) s1 s2"
    proof (cases "body node")
      case None
      with bd show ?thesis by simp
    next
      case (Some b)
      with bd have "internalGenerateCode b s1 = Inr s2" by simp
      from "6.IH"(4) [OF _ _ _ _ _ _ _ _ _ t cs bz Some this] t show ?thesis by simp
    qed
    define l where "l = ''loop_end_'' @ strNat cid"
    define i where "i = ''b loop_start_'' @ strNat cid"
    have fin': "seq [emit i 0 0 None, emitter (label l None)] s2 = Inr s'"
      using fin by (simp add: l_def i_def)
    have W2: "walked [l] (controlStatementId s2) s2 s'"
      using fin' by (auto simp: emit_eq emitter_def label_def walked_def split: if_splits)
    from walked_trans [OF walked_trans [OF W0 W1] W2] t show ?thesis
      by (simp add: walkedPost_def l_def)
  next
    assume t: "nodeType node = ''function-call''"
    show ?thesis
    proof (cases "isBuiltin (name node)")
      case True
      with "6.prems" t have "builtins node s = Inr s'" by (simp add: visitorsPost_functionCall)
      from "6.IH"(5) [OF _ _ _ _ _ _ _ _ _ _ t True this] t show ?thesis
        by (simp add: walkedPost_def)
    next
      case False
      with "6.prems" t have "callsub node s = Inr s'" by (simp add: visitorsPost_functionCall)
      from walked_callsub [OF this] t show ?thesis by (simp add: walkedPost_def)
    qed
  next
    assume t: "nodeType node \<notin> set [''number'', ''string-literal'', ''operation'',
      ''expr-statement'', ''return-statement'', ''declare-variable'', ''access-variable'',
      ''assignment-statement'', ''if-statement'', ''while-statement'', ''function-call'']"
    from "6.prems" visitorsPost_other [OF t] have "s' = s" by simp
    moreover from t have "nodeType node \<noteq> ''while-statement''" by simp
    ultimately show ?thesis by (simp add: walkedPost_def walked_refl)
  qed
next
  case (7 node s)
  show ?case
  proof (rule builtin_cases [of "name node"])
    assume t: "name node = Some ''appGlobalPut''"
    have ih: "\<And>s1. generateArgs node s = Inr s1 \<Longrightarrow> walked [] (controlStatementId s) s s1"
      using "7.IH"(1) t by simp
    from "7.prems" show ?thesis
      unfolding builtins_appGlobalPut [OF t] by (rule walked_after_args [OF _ ih walked_emit2])
  next
    assume t: "name node = Some ''appGlobalGet''"
    have ih: "\<And>s1. generateArgs node s = Inr s1 \<Longrightarrow> walked [] (controlStatementId s) s s1"
      using "7.IH"(2) t by simp
    from "7.prems" show ?thesis
      unfolding builtins_appGlobalGet [OF t] by (rule walked_after_args [OF _ ih walked_emit])
  next
    assume t: "name node = Some ''appGlobalDel''"
    have ih: "\<And>s1. generateArgs node s = Inr s1 \<Longrightarrow> walked [] (controlStatementId s) s s1"
      using "7.IH"(3) t by simp
    from "7.prems" show ?thesis
      unfolding builtins_appGlobalDel [OF t] by (rule walked_after_args [OF _ ih walked_emit2])
  next
    assume t: "name node = Some ''appLocalPut''"
    have ih: "\<And>s1. generateArgs node s = Inr s1 \<Longrightarrow> walked [] (controlStatementId s) s s1"
      using "7.IH"(4) t by simp
    from "7.prems" show ?thesis
      unfolding builtins_appLocalPut [OF t] by (rule walked_after_args [OF _ ih walked_emit2])
  next
    assume t: "name node = Some ''appLocalGet''"
    have ih: "\<And>s1. generateArgs node s = Inr s1 \<Longrightarrow> walked [] (controlStatementId s) s s1"
      using "7.IH"(5) t by simp
    from "7.prems" show ?thesis
      unfolding builtins_appLocalGet [OF t] by (rule walked_after_args [OF _ ih walked_emit])
  next
    assume t: "name node = Some ''appLocalDel''"
    have ih: "\<And>s1. generateArgs node s = Inr s1 \<Longrightarrow> walked [] (controlStatementId s) s s1"
      using "7.IH"(6) t by simp
    from "7.prems" show ?thesis
      unfolding builtins_appLocalDel [OF t] by (rule walked_after_args [OF _ ih walked_emit2])
  next
    assume t: "name node = Some ''btoi''"
    have ih: "\<And>s1. generateArgs node s = Inr s1 \<Longrightarrow> walked [] (controlStatementId s) s s1"
      using "7.IH"(7) t by simp
    from "7.prems" show ?thesis
      unfolding builtins_btoi [OF t] by (rule walked_after_args [OF _ ih walked_emit])
  next
    assume t: "name node = Some ''itob''"
    have ih: "\<And>s1. generateArgs node s = Inr s1 \<Longrightarrow> walked [] (controlStatementId s) s s1"
      using "7.IH"(8) t by simp
    from "7.prems" show ?thesis
      unfolding builtins_itob [OF t] by (rule walked_after_args [OF _ ih walked_emit])
  next
    assume t: "name node = Some ''exit''"
    have ih: "\<And>s1. generateArgs node s = Inr s1 \<Longrightarrow> walked [] (controlStatementId s) s s1"
      using "7.IH"(9) t by simp
    from "7.prems" show ?thesis
      unfolding builtins_exit [OF t] by (rule walked_after_args [OF _ ih walked_emit])
  next
    assume t: "name node = Some ''itxn_begin''"
    from "7.prems" show ?thesis
      unfolding builtins_itxn_begin [OF t] by (rule walked_emit2)
  next
    assume t: "name node = Some ''itxn_field''"
    from "7.prems" show ?thesis
      unfolding builtins_itxn_field [OF t] by (rule walked_itxn_field)
  next
    assume t: "name node = Some ''itxn_submit''"
    from "7.prems" show ?thesis
      unfolding builtins_itxn_submit [OF t] by (rule walked_emit2)
  next
    assume t: "name node \<notin> set [Some ''appGlobalPut'', Some ''appGlobalGet'',
      Some ''appGlobalDel'', Some ''appLocalPut'', Some ''appLocalGet'', Some ''appLocalDel'',
      Some ''btoi'', Some ''itob'', Some ''exit'', Some ''itxn_begin'', Some ''itxn_field'',
      Some ''itxn_submit'']"
    from "7.prems" have "s' = s"
      unfolding builtins_other [OF t] inheritedMember_def by (simp split: if_splits)
    then show ?thesis by (simp add: walked_refl)
  qed
qed

subsection \<open>The code of one function\<close>

definition prologueLines :: "tableStore \<Rightarrow> node \<Rightarrow> line list" where
  "prologueLines ts f =
     [Label (str (name f)) None,
      Section (Some ''Function setup.''),
      Instr ''load 0'' (Some (''Take copy of current stack_pointer on stack so that we can save it as the ''
          @ [CHR 0x22] @ ''previous stack pointer'' @ [CHR 0x22] @ '' in the new stack frame.'')),
      Section (Some ''Allocate stack frame for the function being called and update the stack_pointer.''),
      Section (Some ''stack_pointer = stack_pointer - (num_locals+1)''),
      Instr ''load 0'' (Some ''stack_pointer''),
      Instr (''int '' @ showNat (case scope f of None \<Rightarrow> 0 | Some sc \<Rightarrow> getNumSymbols ts sc + 1))
        (Some ''num_locals+1''),
      Instr ''-'' (Some ''stack_pointer - (num_locals+1)''),
      Instr ''store 0'' (Some ''stack_pointer = stack_pointer - (num_locals+1)''),
      Instr ''load 0'' (Some ''Loads the stack_pointer for the new stack frame, this is where we'll store the previous stack pointer.''),
      Instr ''swap'' (Some ''The values on the compute stack are in the wrong order, swap so they are in the right order.''),
      Instr ''stores'' (Some ''Stores previous stack pointer at the first position in the new stack frame.''),
      Section None]"

definition paramLines :: "tableStore \<Rightarrow> node \<Rightarrow> string \<Rightarrow> line list" where
  "paramLines ts f param =
     (case scope f of
        None \<Rightarrow> []
      | Some sc \<Rightarrow>
          (case get ts sc (Some param) of
             None \<Rightarrow> []
           | Some sy \<Rightarrow>
               [Instr (''int '' @ showNat (position sy)) None,
                Instr ''load 0'' None,
                Instr ''+'' None,
                Instr ''stores'' (Some (''Stores '' @ [CHR 0x22] @ param @ [CHR 0x22] @ ''.''))]))"

definition paramFound :: "tableStore \<Rightarrow> node \<Rightarrow> string \<Rightarrow> bool" where
  "paramFound ts f param =
     (case scope f of None \<Rightarrow> False | Some sc \<Rightarrow> get ts sc (Some param) \<noteq> None)"

definition epilogueLines :: "node \<Rightarrow> line list" where
  "epilogueLines f =
     [Label (str (name f) @ ''-cleanup'')
        (Some ''Function cleanup. Restores the previous stack frame''),
      Instr ''load 0'' (Some ''Loads current stack_pointer''),
      Instr ''loads'' (Some ''Loads previous_stack_pointer''),
      Instr ''store 0'' (Some ''stack_pointer = previous_stack_pointer''),
      Instr ''retsub'' (Some ''Catch all return.'')]"

definition emitLines :: "line list \<Rightarrow> nat \<Rightarrow> CodeGenerator \<Rightarrow> CodeGenerator" where
  "emitLines ls d s =
     s\<lparr>codeEmitter := \<lparr>outputLines = outputLines (codeEmitter s) @ ls,
                        stackSize = stackSize (codeEmitter s) + d\<rparr>\<rparr>"

lemma emitLines_simps [simp]:
  "outputLines (codeEmitter (emitLines ls d s)) = outputLines (codeEmitter s) @ ls"
  "stackSize (codeEmitter (emitLines ls d s)) = stackSize (codeEmitter s) + d"
  "controlStatementId (emitLines ls d s) = controlStatementId s"
  "functionNodes (emitLines ls d s) = functionNodes s"
  "inFunction (emitLines ls d s) = inFunction s"
  "curFunction (emitLines ls d s) = curFunction s"
  "paramArrays (emitLines ls d s) = paramArrays s"
  "symbolArrays (emitLines ls d s) = symbolArrays s"
  "tables (emitLines ls d s) = tables s"
  by (simp_all add: emitLines_def)

lemma storeParam_eq:
  "storeParam f param s =
     (if paramFound (tables s) f param then Inr (emitLines (paramLines (tables s) f param) 1 s)
      else Inl TypeError)"
  by (simp add: storeParam_def paramFound_def paramLines_def emitLines_def emit_eq
      split: option.splits)

lemma seq_storeParam:
  "seq (map (storeParam f) ps) s =
     (if list_all (paramFound (tables s) f) ps
      then Inr (emitLines (concat (map (paramLines (tables s) f) ps)) (length ps) s)
      else Inl TypeError)"
proof (induction ps arbitrary: s)
  case Nil
  show ?case by (simp add: emitLines_def)
next
  case (Cons p ps)
  have "seq (map (storeParam f) (p # ps)) s =
        (case storeParam f p s of Inl e \<Rightarrow> Inl e | Inr s' \<Rightarrow> seq (map (storeParam f) ps) s')"
    by simp
  also have "\<dots> = (if paramFound (tables s) f p
       then seq (map (storeParam f) ps) (emitLines (paramLines (tables s) f p) 1 s)
       else Inl TypeError)"
    by (simp only: storeParam_eq [of f p s]) simp
  finally show ?case
    by (simp only: Cons.IH) (simp add: emitLines_def)
qed

definition argumentLines :: "tableStore \<Rightarrow> node \<Rightarrow> string list \<Rightarrow> line list" where
  "argumentLines ts f ps =
     Section (Some ''Setup arguments.'') # concat (map (paramLines ts f) ps)"

lemma setupArguments_eq:
  "setupArguments f s =
     (case params f of
        None \<Rightarrow> Inr s
      | Some a \<Rightarrow>
          if list_all (paramFound (tables s) f) (paramArrays s a)
          then Inr ((emitLines (argumentLines (tables s) f (rev (paramArrays s a)))
                      (length (paramArrays s a)) s)
                    \<lparr>paramArrays := (paramArrays s)(a := rev (paramArrays s a))\<rparr>)
          else Inl TypeError)"
  by (simp add: setupArguments_def emitter_def addSection_def Let_def seq_storeParam
      emitLines_def argumentLines_def split: option.splits)

lemma outputLines_update_eq:
  "(e::CodeEmitter)\<lparr>outputLines := x\<rparr> = \<lparr>outputLines = x, stackSize = stackSize e\<rparr>"
  by (cases e) simp

lemma generateFunctionCode_eq:
  "generateFunctionCode f s =
     (case scope f of
        None \<Rightarrow> Inl TypeError
      | Some sc \<Rightarrow>
          (case setupArguments f
                  (emitLines (prologueLines (tables s) f) 2 (s\<lparr>curFunction := Some f\<rparr>)) of
             Inl e \<Rightarrow> Inl e
           | Inr sA \<Rightarrow>
               (case body f of
                  None \<Rightarrow> Inl TypeError
                | Some b \<Rightarrow>
                    (case internalGenerateCode b
                            (emitLines [Section (Some ''Function body.'')] 0 sA) of
                       Inl e \<Rightarrow> Inl e
                     | Inr sB \<Rightarrow> Inr (emitLines (epilogueLines f) 0 sB)))))"
  unfolding generateFunctionCode_def
  by (simp add: emit_eq emitter_def label_def addSection_def emitLines_def prologueLines_def
      epilogueLines_def outputLines_update_eq split: option.splits sum.splits)

definition argumentsOf :: "CodeGenerator \<Rightarrow> node \<Rightarrow> line list" where
  "argumentsOf s f =
     (case params f of
        None \<Rightarrow> []
      | Some a \<Rightarrow> argumentLines (tables s) f (rev (paramArrays s a)))"

definition reversedParams :: "node \<Rightarrow> (nat \<Rightarrow> string list) \<Rightarrow> (nat \<Rightarrow> string list)" where
  "reversedParams f ps = (case params f of None \<Rightarrow> ps | Some a \<Rightarrow> ps(a := rev (ps a)))"

lemma generateFunctionCode_Inr:
  assumes run: "generateFunctionCode f s = Inr s'"
  obtains b B sS sB where "scope f \<noteq> None" "body f = Some b"
    "internalGenerateCode b sS = Inr sB"
    "outputLines (codeEmitter sS) =
       outputLines (codeEmitter s) @ prologueLines (tables s) f @ argumentsOf s f @
       [Section (Some ''Function body.'')]"
    "outputLines (codeEmitter sB) = outputLines (codeEmitter sS) @ B"
    "controlStatementId sS = controlStatementId s" "inFunction sS = inFunction s"
    "curFunction sS = Some f"
    "outputLines (codeEmitter s') =
       outputLines (codeEmitter s) @ prologueLines (tables s) f @ argumentsOf s f @
       [Section (Some ''Function body.'')] @ B @ epilogueLines f"
    "plainLines B" "set (labelNames B) \<subseteq> idNames (controlStatementId s) (controlStatementId s')"
    "distinct (labelNames B)"
    "paramArrays s' = reversedParams f (paramArrays s)"
    "tables s' = tables s" "functionNodes s' = functionNodes s" "inFunction s' = inFunction s"
    "curFunction s' = Some f" "controlStatementId s \<le> controlStatementId s'"
    "\<forall>a. params f = Some a \<longrightarrow> list_all (paramFound (tables s) f) (paramArrays s a)"
proof -
  define sP where "sP = emitLines (prologueLines (tables s) f) 2 (s\<lparr>curFunction := Some f\<rparr>)"
  from run obtain sc sA b sB where
    sc: "scope f = Some sc"
    and args: "setupArguments f sP = Inr sA"
    and b: "body f = Some b"
    and walk: "internalGenerateCode b (emitLines [Section (Some ''Function body.'')] 0 sA) = Inr sB"
    and s': "s' = emitLines (epilogueLines f) 0 sB"
    unfolding generateFunctionCode_eq sP_def [symmetric]
    by (auto split: option.splits sum.splits)
  have tP: "tables sP = tables s" and pP: "paramArrays sP = paramArrays s"
    and oP: "outputLines (codeEmitter sP) = outputLines (codeEmitter s) @ prologueLines (tables s) f"
    and fP: "functionNodes sP = functionNodes s" "inFunction sP = inFunction s"
      "curFunction sP = Some f" "controlStatementId sP = controlStatementId s"
    by (simp_all add: sP_def)
  have found: "\<forall>a. params f = Some a \<longrightarrow> list_all (paramFound (tables s) f) (paramArrays s a)"
    using args unfolding setupArguments_eq tP pP by (auto split: option.splits if_splits)
  have sA: "outputLines (codeEmitter sA) = outputLines (codeEmitter sP) @ argumentsOf s f"
    "paramArrays sA = reversedParams f (paramArrays s)" "tables sA = tables s"
    "functionNodes sA = functionNodes s" "inFunction sA = inFunction s"
    "curFunction sA = Some f" "controlStatementId sA = controlStatementId s"
    using args fP tP pP unfolding setupArguments_eq argumentsOf_def reversedParams_def
    by (auto split: option.splits if_splits)
  define sS where "sS = emitLines [Section (Some ''Function body.'')] 0 sA"
  have cS: "controlStatementId sS = controlStatementId s" by (simp add: sS_def sA)
  from walk_invariant(1) [OF walk [folded sS_def]] have "walked [] (controlStatementId s) sS sB"
    by (simp add: cS)
  then obtain B names where
    fB: "functionNodes sB = functionNodes sS" "inFunction sB = inFunction sS"
      "curFunction sB = curFunction sS" "paramArrays sB = paramArrays sS" "tables sB = tables sS"
      "controlStatementId s \<le> controlStatementId sS" "controlStatementId sS \<le> controlStatementId sB"
    and oB: "outputLines (codeEmitter sB) = outputLines (codeEmitter sS) @ B"
      "plainLines B" "labelNames B = names @ []"
      "set names \<subseteq> idNames (controlStatementId s) (controlStatementId sB)" "distinct names"
    by (rule walked_D)
  show thesis
  proof (rule that [of b sS sB B])
    show "scope f \<noteq> None" using sc by simp
    show "body f = Some b" by (rule b)
    show "internalGenerateCode b sS = Inr sB" using walk by (simp add: sS_def)
    show "outputLines (codeEmitter sS) =
       outputLines (codeEmitter s) @ prologueLines (tables s) f @ argumentsOf s f @
       [Section (Some ''Function body.'')]"
      by (simp add: sS_def sA(1) oP)
    show "outputLines (codeEmitter sB) = outputLines (codeEmitter sS) @ B" by (rule oB(1))
    show "controlStatementId sS = controlStatementId s" by (rule cS)
    show "inFunction sS = inFunction s" by (simp add: sS_def sA)
    show "curFunction sS = Some f" by (simp add: sS_def sA)
    show "outputLines (codeEmitter s') =
       outputLines (codeEmitter s) @ prologueLines (tables s) f @ argumentsOf s f @
       [Section (Some ''Function body.'')] @ B @ epilogueLines f"
      by (simp add: s' oB(1) sS_def sA(1) oP)
    show "plainLines B" by (rule oB(2))
    show "set (labelNames B) \<subseteq> idNames (controlStatementId s) (controlStatementId s')"
      using oB(3,4) by (simp add: s')
    show "distinct (labelNames B)" using oB(3,5) by simp
    show "paramArrays s' = reversedParams f (paramArrays s)" by (simp add: s' fB sS_def sA)
    show "tables s' = tables s" by (simp add: s' fB sS_def sA)
    show "functionNodes s' = functionNodes s" by (simp add: s' fB sS_def sA)
    show "inFunction s' = inFunction s" by (simp add: s' fB sS_def sA)
    show "curFunction s' = Some f" by (simp add: s' fB sS_def sA)
    show "controlStatementId s \<le> controlStatementId s'" using fB(7) cS by (simp add: s')
    show "\<forall>a. params f = Some a \<longrightarrow> list_all (paramFound (tables s) f) (paramArrays s a)"
      by (rule found)
  qed
qed

subsection \<open>The collection pass\<close>

fun declarationsOf :: "node \<Rightarrow> node list" and declarationsOfEach :: "node list \<Rightarrow> node list" where
  "declarationsOf n =
     (case children n of None \<Rightarrow> [] | Some cs \<Rightarrow> declarationsOfEach cs) @
     (if nodeType n = ''function-declaration'' then [n] else [])"
| "declarationsOfEach [] = []"
| "declarationsOfEach (c # cs) = declarationsOf c @ declarationsOfEach cs"

declare declarationsOf.simps [simp del]

lemma collectFunctions_eq:
  "collectFunctions n s = s\<lparr>functionNodes := functionNodes s @ declarationsOf n\<rparr>"
  "collectEach ns s = s\<lparr>functionNodes := functionNodes s @ declarationsOfEach ns\<rparr>"
proof (induction n s and ns s rule: collectFunctions_collectEach.induct)
  case (1 node s)
  show ?case
  proof (cases "children node")
    case None
    then show ?thesis by (simp add: collectFunctions.simps declarationsOf.simps)
  next
    case (Some cs)
    with "1.IH" [OF Some] show ?thesis
      by (simp add: collectFunctions.simps declarationsOf.simps)
  qed
next
  case (2 s)
  show ?case by simp
next
  case (3 child rest s)
  then show ?case by simp
qed

subsection \<open>The second pass and the driver\<close>

definition functionLines :: "(nat \<Rightarrow> string list) \<Rightarrow> tableStore \<Rightarrow> node \<Rightarrow> line list \<Rightarrow> line list" where
  "functionLines ps ts f B =
     prologueLines ts f @
     (case params f of None \<Rightarrow> [] | Some a \<Rightarrow> argumentLines ts f (rev (ps a))) @
     [Section (Some ''Function body.'')] @ B @ epilogueLines f"

fun functionsLines :: "(nat \<Rightarrow> string list) \<Rightarrow> tableStore \<Rightarrow> node list \<Rightarrow> line list list
    \<Rightarrow> line list" where
  "functionsLines ps ts (f # fs) (B # Bs) =
     functionLines ps ts f B @ functionsLines (reversedParams f ps) ts fs Bs"
| "functionsLines ps ts _ _ = []"

definition bootstrapLines :: "nat \<Rightarrow> line list" where
  "bootstrapLines MAX_SCRATCH =
     [Section (Some ''Function data stack setup.''),
      Instr (''int '' @ showNat MAX_SCRATCH) (Some ''Initial stack pointer.''),
      Instr ''store 0'' (Some ''Set stack_pointer''),
      Section None]"

text \<open>
  The lines that the walk of a function's body emits, the function being the current one.
\<close>

definition emittedByBody :: "node \<Rightarrow> line list \<Rightarrow> bool" where
  "emittedByBody f B \<longleftrightarrow>
     (\<exists>b sS sB. body f = Some b \<and> curFunction sS = Some f \<and>
        internalGenerateCode b sS = Inr sB \<and>
        outputLines (codeEmitter sB) = outputLines (codeEmitter sS) @ B)"

lemma generateFunctions_Inr:
  assumes "generateFunctions fs s = Inr s'"
  shows "\<exists>Bs. length Bs = length fs \<and>
      outputLines (codeEmitter s') =
        outputLines (codeEmitter s) @ functionsLines (paramArrays s) (tables s) fs Bs \<and>
      list_all plainLines Bs \<and> distinct (labelNames (concat Bs)) \<and>
      set (labelNames (concat Bs)) \<subseteq> idNames (controlStatementId s) (controlStatementId s') \<and>
      paramArrays s' = foldl (\<lambda>ps f. reversedParams f ps) (paramArrays s) fs \<and>
      tables s' = tables s \<and> functionNodes s' = functionNodes s \<and>
      inFunction s' = inFunction s \<and> controlStatementId s \<le> controlStatementId s' \<and>
      list_all2 emittedByBody fs Bs"
  using assms
proof (induction fs arbitrary: s)
  case Nil
  then show ?case by simp
next
  case (Cons f fs)
  from Cons.prems obtain s1 where
    one: "generateFunctionCode f s = Inr s1" and rest: "generateFunctions fs s1 = Inr s'"
    by (auto split: sum.splits)
  from one obtain b B sS sB where
    o1: "outputLines (codeEmitter s1) =
       outputLines (codeEmitter s) @ prologueLines (tables s) f @ argumentsOf s f @
       [Section (Some ''Function body.'')] @ B @ epilogueLines f"
    and B: "plainLines B" "set (labelNames B) \<subseteq> idNames (controlStatementId s) (controlStatementId s1)"
      "distinct (labelNames B)"
    and f1: "paramArrays s1 = reversedParams f (paramArrays s)"
      "tables s1 = tables s" "functionNodes s1 = functionNodes s" "inFunction s1 = inFunction s"
      "controlStatementId s \<le> controlStatementId s1"
    and bd: "body f = Some b" "internalGenerateCode b sS = Inr sB"
      "outputLines (codeEmitter sB) = outputLines (codeEmitter sS) @ B" "curFunction sS = Some f"
    by (rule generateFunctionCode_Inr)
  from bd have eb: "emittedByBody f B"
    unfolding emittedByBody_def by blast
  from Cons.IH [OF rest] obtain Bs where
    len: "length Bs = length fs"
    and o2: "outputLines (codeEmitter s') =
        outputLines (codeEmitter s1) @ functionsLines (paramArrays s1) (tables s1) fs Bs"
    and Bs: "list_all plainLines Bs" "distinct (labelNames (concat Bs))"
      "set (labelNames (concat Bs)) \<subseteq> idNames (controlStatementId s1) (controlStatementId s')"
    and f2: "paramArrays s' = foldl (\<lambda>ps f. reversedParams f ps) (paramArrays s1) fs"
      "tables s' = tables s1" "functionNodes s' = functionNodes s1" "inFunction s' = inFunction s1"
      "controlStatementId s1 \<le> controlStatementId s'"
    and ebs: "list_all2 emittedByBody fs Bs"
    by blast
  have sub1: "set (labelNames B) \<subseteq> idNames (controlStatementId s) (controlStatementId s')"
    using B(2) idNames_mono [OF order_refl f2(5), of "controlStatementId s"] by blast
  have sub2: "set (labelNames (concat Bs)) \<subseteq> idNames (controlStatementId s) (controlStatementId s')"
    using Bs(3) idNames_mono [OF f1(5) order_refl, of "controlStatementId s'"] by blast
  have disj: "set (labelNames B) \<inter> set (labelNames (concat Bs)) = {}"
    using B(2) Bs(3) idNames_disjoint [OF order_refl, of "controlStatementId s"
        "controlStatementId s1" "controlStatementId s'"] by blast
  have out: "outputLines (codeEmitter s') =
        outputLines (codeEmitter s) @ functionsLines (paramArrays s) (tables s) (f # fs) (B # Bs)"
    using o1 o2 f1 by (simp add: functionLines_def argumentsOf_def)
  show ?case
    apply (rule exI [of _ "B # Bs"])
    using len out B Bs sub1 sub2 disj f1 f2 eb ebs by simp
qed

definition started :: "node \<Rightarrow> CodeGenerator \<Rightarrow> CodeGenerator" where
  "started ast s = s\<lparr>inFunction := False, curFunction := None, functionNodes := declarationsOf ast\<rparr>"

lemma started_simps [simp]:
  "outputLines (codeEmitter (started ast s)) = outputLines (codeEmitter s)"
  "stackSize (codeEmitter (started ast s)) = stackSize (codeEmitter s)"
  "controlStatementId (started ast s) = controlStatementId s"
  "functionNodes (started ast s) = declarationsOf ast"
  "inFunction (started ast s) = False"
  "curFunction (started ast s) = None"
  "paramArrays (started ast s) = paramArrays s"
  "symbolArrays (started ast s) = symbolArrays s"
  "tables (started ast s) = tables s"
  by (simp_all add: started_def)

lemma generateCode_eq:
  "generateCode MAX_SCRATCH ast s =
     (case internalGenerateCode ast
             (if declarationsOf ast = [] then started ast s
              else emitLines (bootstrapLines MAX_SCRATCH) 0 (started ast s)) of
        Inl e \<Rightarrow> Inl e
      | Inr sG \<Rightarrow>
          (if functionNodes sG = [] then Inr sG
           else
             (case generateFunctions (functionNodes sG)
                     ((emitLines [Instr ''b program_end'' None] 0 sG)\<lparr>inFunction := True\<rparr>) of
                Inl e \<Rightarrow> Inl e
              | Inr sF \<Rightarrow> Inr (emitLines [Section None, Label ''program_end'' None] 0 sF))))"
  unfolding generateCode_def Let_def collectFunctions_eq
  by (simp add: emit_eq emitter_def label_def addSection_def emitLines_def bootstrapLines_def
      started_def outputLines_update_eq split: sum.splits)

lemma generateCode_without_functions:
  assumes "declarationsOf ast = []"
  shows "generateCode MAX_SCRATCH ast s = internalGenerateCode ast (started ast s)"
proof (cases "internalGenerateCode ast (started ast s)")
  case (Inl e)
  with assms show ?thesis by (simp add: generateCode_eq)
next
  case (Inr sG)
  from walk_invariant(1) [OF Inr] have "functionNodes sG = functionNodes (started ast s)"
    by (rule walked_D)
  with assms Inr show ?thesis by (simp add: generateCode_eq)
qed

lemma generateCode_with_functions:
  assumes run: "generateCode MAX_SCRATCH ast s = Inr s'" and fs: "declarationsOf ast \<noteq> []"
  obtains G Bs sG where
    "internalGenerateCode ast (emitLines (bootstrapLines MAX_SCRATCH) 0 (started ast s)) = Inr sG"
    "outputLines (codeEmitter sG) = outputLines (codeEmitter s) @ bootstrapLines MAX_SCRATCH @ G"
    "outputLines (codeEmitter s') =
       outputLines (codeEmitter s) @ bootstrapLines MAX_SCRATCH @ G @
       [Instr ''b program_end'' None] @
       functionsLines (paramArrays s) (tables s) (declarationsOf ast) Bs @
       [Section None, Label ''program_end'' None]"
    "length Bs = length (declarationsOf ast)"
    "plainLines G" "list_all plainLines Bs"
    "distinct (labelNames G @ labelNames (concat Bs))"
    "set (labelNames G @ labelNames (concat Bs)) \<subseteq>
       idNames (controlStatementId s) (controlStatementId s')"
    "paramArrays s' = foldl (\<lambda>ps f. reversedParams f ps) (paramArrays s) (declarationsOf ast)"
    "tables s' = tables s" "controlStatementId s \<le> controlStatementId s'"
    "list_all2 emittedByBody (declarationsOf ast) Bs"
proof -
  define s0 where "s0 = emitLines (bootstrapLines MAX_SCRATCH) 0 (started ast s)"
  from run fs obtain sG where
    walk: "internalGenerateCode ast s0 = Inr sG"
    and rest: "(if functionNodes sG = [] then Inr sG
              else
                (case generateFunctions (functionNodes sG)
                        ((emitLines [Instr ''b program_end'' None] 0 sG)\<lparr>inFunction := True\<rparr>) of
                   Inl e \<Rightarrow> Inl e
                 | Inr sF \<Rightarrow> Inr (emitLines [Section None, Label ''program_end'' None] 0 sF))) =
              Inr s'"
    unfolding generateCode_eq s0_def [symmetric] by (auto split: sum.splits if_splits)
  have c0: "controlStatementId s0 = controlStatementId s" by (simp add: s0_def)
  from walk_invariant(1) [OF walk] obtain G names where
    fG: "functionNodes sG = functionNodes s0" "paramArrays sG = paramArrays s0"
      "tables sG = tables s0" "controlStatementId s0 \<le> controlStatementId sG"
    and oG: "outputLines (codeEmitter sG) = outputLines (codeEmitter s0) @ G"
      "plainLines G" "labelNames G = names @ []"
      "set names \<subseteq> idNames (controlStatementId s0) (controlStatementId sG)" "distinct names"
    by (rule walked_D)
  have fnG: "functionNodes sG = declarationsOf ast" using fG(1) by (simp add: s0_def)
  define sJ where "sJ = (emitLines [Instr ''b program_end'' None] 0 sG)\<lparr>inFunction := True\<rparr>"
  from rest fs fnG obtain sF where
    loop: "generateFunctions (declarationsOf ast) sJ = Inr sF"
    and s': "s' = emitLines [Section None, Label ''program_end'' None] 0 sF"
    unfolding sJ_def [symmetric] by (auto split: sum.splits)
  have cJ: "controlStatementId sJ = controlStatementId sG" "paramArrays sJ = paramArrays s"
    "tables sJ = tables s"
    "outputLines (codeEmitter sJ) = outputLines (codeEmitter sG) @ [Instr ''b program_end'' None]"
    using fG by (simp_all add: sJ_def s0_def)
  from generateFunctions_Inr [OF loop] obtain Bs where
    len: "length Bs = length (declarationsOf ast)"
    and oF: "outputLines (codeEmitter sF) =
        outputLines (codeEmitter sJ) @ functionsLines (paramArrays sJ) (tables sJ) (declarationsOf ast) Bs"
    and Bs: "list_all plainLines Bs" "distinct (labelNames (concat Bs))"
      "set (labelNames (concat Bs)) \<subseteq> idNames (controlStatementId sJ) (controlStatementId sF)"
    and fF: "paramArrays sF = foldl (\<lambda>ps f. reversedParams f ps) (paramArrays sJ) (declarationsOf ast)"
      "tables sF = tables sJ" "controlStatementId sJ \<le> controlStatementId sF"
    and ebs: "list_all2 emittedByBody (declarationsOf ast) Bs"
    by blast
  have cs: "controlStatementId s \<le> controlStatementId sG" "controlStatementId sG \<le> controlStatementId sF"
    using fG(4) c0 fF(3) cJ(1) by simp_all
  have sub1: "set (labelNames G) \<subseteq> idNames (controlStatementId s) (controlStatementId sF)"
    using oG(3,4) c0 idNames_mono [OF order_refl cs(2), of "controlStatementId s"] by auto
  have sub2: "set (labelNames (concat Bs)) \<subseteq> idNames (controlStatementId s) (controlStatementId sF)"
    using Bs(3) cJ(1) idNames_mono [OF cs(1) order_refl, of "controlStatementId sF"] by auto
  have disj: "set (labelNames G) \<inter> set (labelNames (concat Bs)) = {}"
    using oG(3,4) Bs(3) c0 cJ(1) idNames_disjoint [OF order_refl, of "controlStatementId s"
        "controlStatementId sG" "controlStatementId sF"] by auto
  show thesis
  proof (rule that [of sG G Bs])
    show "internalGenerateCode ast (emitLines (bootstrapLines MAX_SCRATCH) 0 (started ast s)) = Inr sG"
      using walk by (simp add: s0_def)
    show "outputLines (codeEmitter sG) = outputLines (codeEmitter s) @ bootstrapLines MAX_SCRATCH @ G"
      using oG(1) by (simp add: s0_def)
    show "outputLines (codeEmitter s') =
       outputLines (codeEmitter s) @ bootstrapLines MAX_SCRATCH @ G @
       [Instr ''b program_end'' None] @
       functionsLines (paramArrays s) (tables s) (declarationsOf ast) Bs @
       [Section None, Label ''program_end'' None]"
      using oG(1) oF cJ by (simp add: s' s0_def)
    show "length Bs = length (declarationsOf ast)" by (rule len)
    show "plainLines G" by (rule oG(2))
    show "list_all plainLines Bs" by (rule Bs(1))
    show "distinct (labelNames G @ labelNames (concat Bs))"
      using oG(3,5) Bs(2) disj by simp
    show "set (labelNames G @ labelNames (concat Bs)) \<subseteq>
       idNames (controlStatementId s) (controlStatementId s')"
      using sub1 sub2 by (simp add: s')
    show "paramArrays s' = foldl (\<lambda>ps f. reversedParams f ps) (paramArrays s) (declarationsOf ast)"
      using fF(1) cJ(2) by (simp add: s')
    show "tables s' = tables s" using fF(2) cJ(3) by (simp add: s')
    show "controlStatementId s \<le> controlStatementId s'" using cs by (simp add: s')
    show "list_all2 emittedByBody (declarationsOf ast) Bs" by (rule ebs)
  qed
qed

section \<open>The prologue of a function\<close>

subsection \<open>A function of two parameters\<close>

definition aLocal :: ISymbol where
  "aLocal = \<lparr>symbolName = Some ''a'', symbolType = Variable, position = 1, isGlobal = False\<rparr>"

definition bLocal :: ISymbol where
  "bLocal = \<lparr>symbolName = Some ''b'', symbolType = Variable, position = 2, isGlobal = False\<rparr>"

definition twoParamsScope :: SymbolTable where
  "twoParamsScope = SymbolTable 2 (Some (SymbolTable 0 None))"

definition twoParams :: node where
  "twoParams =
     Node ''function-declaration'' None (Some ''f'') None None None None None (Some 0)
       (Some (setChildren (Some []) (emptyNode ''block''))) None None None
       (Some twoParamsScope) None None None None"

definition twoParamsHeap :: CodeGenerator where
  "twoParamsHeap =
     newCodeGenerator ((\<lambda>_. [])(0 := [''a'', ''b''])) (\<lambda>_. [])
       ((\<lambda>_. [])(2 := [(Some ''a'', aLocal), (Some ''b'', bLocal)]))"

lemma twoParams_simps:
  "nodeType twoParams = ''function-declaration''" "children twoParams = None"
  "name twoParams = Some ''f''" "params twoParams = Some 0"
  "body twoParams = Some (setChildren (Some []) (emptyNode ''block''))"
  "scope twoParams = Some twoParamsScope"
  by (simp_all add: twoParams_def)

lemma twoParamsHeap_simps:
  "paramArrays twoParamsHeap 0 = [''a'', ''b'']"
  "tables twoParamsHeap 2 = [(Some ''a'', aLocal), (Some ''b'', bLocal)]"
  "outputLines (codeEmitter twoParamsHeap) = []"
  "controlStatementId twoParamsHeap = 0"
  by (simp_all add: twoParamsHeap_def newCodeGenerator_def)

lemma get_twoParams:
  "get (tables twoParamsHeap) twoParamsScope (Some ''a'') = Some aLocal"
  "get (tables twoParamsHeap) twoParamsScope (Some ''b'') = Some bLocal"
  by (simp_all add: twoParamsScope_def twoParamsHeap_simps)

lemma emptyBlock_walk:
  "internalGenerateCode (setChildren (Some []) (emptyNode ''block'')) s = Inr s"
proof -
  have t: "nodeType (setChildren (Some []) (emptyNode ''block'')) = ''block''"
    and c: "children (setChildren (Some []) (emptyNode ''block'')) = Some []"
    by (simp_all add: emptyNode_def)
  have pre: "visitorsPre (setChildren (Some []) (emptyNode ''block'')) s = Inr (s, None)"
    by (rule visitorsPre_other) (simp add: t)
  have post: "visitorsPost (setChildren (Some []) (emptyNode ''block'')) None s = Inr s"
    by (rule visitorsPost_other) (simp add: t)
  show ?thesis
    by (simp add: internalGenerateCode.simps pre c post)
qed

lemma twoParams_runs: "\<exists>s'. generateFunctionCode twoParams twoParamsHeap = Inr s'"
  by (simp add: generateFunctionCode_eq setupArguments_eq twoParams_simps twoParamsHeap_simps
      paramFound_def get_twoParams emptyBlock_walk)

text \<open>
  C4. When \<open>generateFunctionCode\<close> returns for a function node with a parameter list, what
  it emitted is: the prologue up to the stack-frame allocation (\<open>prologueLines\<close>), the
  section break \<^verbatim>\<open>Setup arguments.\<close>, the store sequences of the parameters in the reverse
  of their order in the list, the section break \<^verbatim>\<open>Function body.\<close>, the lines of the body
  (none of them a section break) and the epilogue. Every parameter was found by \<open>get\<close> in the
  function's scope and its store sequence is \<^verbatim>\<open>int <position>\<close>, \<^verbatim>\<open>load 0\<close>, \<^verbatim>\<open>+\<close>,
  \<^verbatim>\<open>stores\<close> with the comment naming the parameter.
\<close>

theorem prologue_stores_parameters_reversed:
  assumes run: "generateFunctionCode f s = Inr s'" and ps: "params f = Some a"
  shows "(\<exists>B. outputLines (codeEmitter s') =
            outputLines (codeEmitter s) @ prologueLines (tables s) f @
            [Section (Some ''Setup arguments.'')] @
            concat (map (paramLines (tables s) f) (rev (paramArrays s a))) @
            [Section (Some ''Function body.'')] @ B @ epilogueLines f \<and> plainLines B) \<and>
         list_all (\<lambda>p. \<exists>sc sy. scope f = Some sc \<and> get (tables s) sc (Some p) = Some sy \<and>
             paramLines (tables s) f p =
               [Instr (''int '' @ showNat (position sy)) None, Instr ''load 0'' None,
                Instr ''+'' None,
                Instr ''stores'' (Some (''Stores '' @ [CHR 0x22] @ p @ [CHR 0x22] @ ''.''))])
           (paramArrays s a)"
proof -
  from run obtain b B sS sB where
    out: "outputLines (codeEmitter s') =
       outputLines (codeEmitter s) @ prologueLines (tables s) f @ argumentsOf s f @
       [Section (Some ''Function body.'')] @ B @ epilogueLines f"
    and B: "plainLines B"
    and found: "\<forall>a. params f = Some a \<longrightarrow> list_all (paramFound (tables s) f) (paramArrays s a)"
    by (rule generateFunctionCode_Inr)
  have "list_all (paramFound (tables s) f) (paramArrays s a)" using found ps by blast
  then have each: "list_all (\<lambda>p. \<exists>sc sy. scope f = Some sc \<and> get (tables s) sc (Some p) = Some sy \<and>
             paramLines (tables s) f p =
               [Instr (''int '' @ showNat (position sy)) None, Instr ''load 0'' None,
                Instr ''+'' None,
                Instr ''stores'' (Some (''Stores '' @ [CHR 0x22] @ p @ [CHR 0x22] @ ''.''))])
           (paramArrays s a)"
    by (rule list.pred_mono_strong)
      (auto simp: paramFound_def paramLines_def split: option.splits)
  from out ps B have "\<exists>B. outputLines (codeEmitter s') =
            outputLines (codeEmitter s) @ prologueLines (tables s) f @
            [Section (Some ''Setup arguments.'')] @
            concat (map (paramLines (tables s) f) (rev (paramArrays s a))) @
            [Section (Some ''Function body.'')] @ B @ epilogueLines f \<and> plainLines B"
    by (auto simp: argumentsOf_def argumentLines_def)
  with each show ?thesis by blast
qed

theorem prologue_stores_parameters_reversed_witness:
  "\<exists>s' B. generateFunctionCode twoParams twoParamsHeap = Inr s' \<and>
     outputLines (codeEmitter s') =
       prologueLines (tables twoParamsHeap) twoParams @
       [Section (Some ''Setup arguments.''),
        Instr ''int 2'' None, Instr ''load 0'' None, Instr ''+'' None,
        Instr ''stores'' (Some (''Stores '' @ [CHR 0x22] @ ''b'' @ [CHR 0x22] @ ''.'')),
        Instr ''int 1'' None, Instr ''load 0'' None, Instr ''+'' None,
        Instr ''stores'' (Some (''Stores '' @ [CHR 0x22] @ ''a'' @ [CHR 0x22] @ ''.'')),
        Section (Some ''Function body.'')] @ B @ epilogueLines twoParams"
proof -
  from twoParams_runs obtain s' where run: "generateFunctionCode twoParams twoParamsHeap = Inr s'"
    by blast
  have lines: "concat (map (paramLines (tables twoParamsHeap) twoParams)
        (rev (paramArrays twoParamsHeap 0))) =
       [Instr ''int 2'' None, Instr ''load 0'' None, Instr ''+'' None,
        Instr ''stores'' (Some (''Stores '' @ [CHR 0x22] @ ''b'' @ [CHR 0x22] @ ''.'')),
        Instr ''int 1'' None, Instr ''load 0'' None, Instr ''+'' None,
        Instr ''stores'' (Some (''Stores '' @ [CHR 0x22] @ ''a'' @ [CHR 0x22] @ ''.''))]"
    by (simp add: twoParamsHeap_simps(1) paramLines_def twoParams_simps get_twoParams
        aLocal_def bLocal_def showNat.simps digitChar_def)
  from prologue_stores_parameters_reversed [OF run twoParams_simps(4)] obtain B where
    "outputLines (codeEmitter s') =
       outputLines (codeEmitter twoParamsHeap) @ prologueLines (tables twoParamsHeap) twoParams @
       [Section (Some ''Setup arguments.'')] @
       concat (map (paramLines (tables twoParamsHeap) twoParams)
         (rev (paramArrays twoParamsHeap 0))) @
       [Section (Some ''Function body.'')] @ B @ epilogueLines twoParams"
    by blast
  with run show ?thesis
    unfolding lines twoParamsHeap_simps(3) by auto
qed

section \<open>The parameter arrays after a run\<close>

text \<open>The addresses of the parameter arrays of a list of function nodes.\<close>

definition paramAddresses :: "node list \<Rightarrow> nat list" where
  "paramAddresses fs = concat (map (\<lambda>f. case params f of None \<Rightarrow> [] | Some a \<Rightarrow> [a]) fs)"

lemma paramAddresses_simps [simp]:
  "paramAddresses [] = []"
  "paramAddresses (f # fs) = (case params f of None \<Rightarrow> [] | Some a \<Rightarrow> [a]) @ paramAddresses fs"
  by (simp_all add: paramAddresses_def)

lemma paramAddresses_member:
  "f \<in> set fs \<Longrightarrow> params f = Some a \<Longrightarrow> a \<in> set (paramAddresses fs)"
  by (induction fs) auto

lemma reversedParams_other: "params g \<noteq> Some a \<Longrightarrow> reversedParams g ps a = ps a"
  by (simp add: reversedParams_def split: option.splits)

lemma reversedParams_own: "params g = Some a \<Longrightarrow> reversedParams g ps a = rev (ps a)"
  by (simp add: reversedParams_def)

lemma foldl_reversedParams_notin:
  "a \<notin> set (paramAddresses fs) \<Longrightarrow>
     foldl (\<lambda>ps f. reversedParams f ps) ps fs a = ps a"
proof (induction fs arbitrary: ps)
  case Nil
  show ?case by simp
next
  case (Cons g fs)
  from Cons.prems have g: "params g \<noteq> Some a" and rest: "a \<notin> set (paramAddresses fs)"
    by (auto split: option.splits)
  show ?case using Cons.IH [OF rest] reversedParams_other [OF g] by simp
qed

lemma foldl_reversedParams_once:
  assumes "f \<in> set fs" "params f = Some a" "distinct (paramAddresses fs)"
  shows "foldl (\<lambda>ps f. reversedParams f ps) ps fs a = rev (ps a)"
  using assms
proof (induction fs arbitrary: ps)
  case Nil
  then show ?case by simp
next
  case (Cons g fs)
  show ?case
  proof (cases "params g = Some a")
    case True
    with Cons.prems(3) have "a \<notin> set (paramAddresses fs)"
      by simp
    from foldl_reversedParams_notin [OF this] reversedParams_own [OF True] show ?thesis by simp
  next
    case False
    with Cons.prems have "f \<in> set fs" and d: "distinct (paramAddresses fs)"
      by (auto split: option.splits)
    from Cons.IH [OF this(1) Cons.prems(2) d] reversedParams_other [OF False] show ?thesis
      by simp
  qed
qed

lemma functionsLines_chunk:
  assumes "f \<in> set fs" "params f = Some a" "distinct (paramAddresses fs)"
    "length Bs = length fs"
  shows "\<exists>pre post. functionsLines ps ts fs Bs =
           pre @ argumentLines ts f (rev (ps a)) @ Section (Some ''Function body.'') # post"
  using assms
proof (induction fs arbitrary: ps Bs)
  case Nil
  then show ?case by simp
next
  case (Cons g fs)
  from Cons.prems(4) obtain B Bs' where Bs: "Bs = B # Bs'" and len: "length Bs' = length fs"
    by (cases Bs) auto
  show ?case
  proof (cases "params g = Some a")
    case True
    have "functionsLines ps ts (g # fs) Bs =
        prologueLines ts g @ argumentLines ts g (rev (ps a)) @
        Section (Some ''Function body.'') #
        (B @ epilogueLines g @ functionsLines (reversedParams g ps) ts fs Bs')"
      by (simp add: Bs functionLines_def True)
    moreover have "g = f"
    proof (rule ccontr)
      assume "g \<noteq> f"
      with Cons.prems(1) have "f \<in> set fs" by auto
      with Cons.prems(2) have "a \<in> set (paramAddresses fs)"
        by (simp add: paramAddresses_member)
      with Cons.prems(3) True show False by simp
    qed
    ultimately show ?thesis by blast
  next
    case False
    with Cons.prems have "f \<in> set fs" and d: "distinct (paramAddresses fs)"
      by (auto split: option.splits)
    from Cons.IH [OF this(1) Cons.prems(2) d len, of "reversedParams g ps"] obtain pre post where
      "functionsLines (reversedParams g ps) ts fs Bs' =
         pre @ argumentLines ts f (rev (ps a)) @ Section (Some ''Function body.'') # post"
      using reversedParams_other [OF False] by auto
    then have "functionsLines ps ts (g # fs) Bs =
        (functionLines ps ts g B @ pre) @ argumentLines ts f (rev (ps a)) @
        Section (Some ''Function body.'') # post"
      by (simp add: Bs)
    then show ?thesis by blast
  qed
qed


text \<open>A program that declares the function of two parameters.\<close>

definition twoParamsProgram :: node where
  "twoParamsProgram = setChildren (Some [twoParams]) (emptyNode ''block'')"

lemma twoParamsProgram_simps:
  "nodeType twoParamsProgram = ''block''" "children twoParamsProgram = Some [twoParams]"
  by (simp_all add: twoParamsProgram_def emptyNode_def)

lemma declarationsOf_twoParamsProgram: "declarationsOf twoParamsProgram = [twoParams]"
  by (simp add: declarationsOf.simps twoParamsProgram_simps twoParams_simps)

lemma twoParams_globals: "internalGenerateCode twoParams s = Inr s"
proof -
  have pre: "visitorsPre twoParams s = Inr (s, None)"
    by (rule visitorsPre_other) (simp add: twoParams_simps)
  have post: "visitorsPost twoParams None s = Inr s"
    by (rule visitorsPost_other) (simp add: twoParams_simps)
  show ?thesis by (simp add: internalGenerateCode.simps pre post twoParams_simps)
qed

lemma twoParamsProgram_globals: "internalGenerateCode twoParamsProgram s = Inr s"
proof -
  have pre: "visitorsPre twoParamsProgram s = Inr (s, None)"
    by (rule visitorsPre_other) (simp add: twoParamsProgram_simps)
  have post: "visitorsPost twoParamsProgram None s = Inr s"
    by (rule visitorsPost_other) (simp add: twoParamsProgram_simps)
  show ?thesis
    by (simp add: internalGenerateCode.simps [of twoParamsProgram] pre post
        twoParamsProgram_simps twoParams_globals)
qed

lemma twoParamsProgram_runs:
  assumes t: "tables s = tables twoParamsHeap"
    and p: "set (paramArrays s 0) \<subseteq> {''a'', ''b''}"
  shows "\<exists>s'. generateCode m twoParamsProgram s = Inr s'"
proof -
  have found: "list_all (paramFound (tables twoParamsHeap) twoParams) (paramArrays s 0)"
    unfolding list_all_iff
  proof
    fix x assume "x \<in> set (paramArrays s 0)"
    with p have "x = ''a'' \<or> x = ''b''" by blast
    then show "paramFound (tables twoParamsHeap) twoParams x"
      by (auto simp: paramFound_def twoParams_simps get_twoParams)
  qed
  show ?thesis
    by (simp add: generateCode_eq declarationsOf_twoParamsProgram twoParamsProgram_globals
        generateFunctionCode_eq setupArguments_eq twoParams_simps t found emptyBlock_walk)
qed

text \<open>
  C9. \<open>generateFunctionCode\<close> reverses the \<^verbatim>\<open>params\<close> array of its node where it lies. So
  after a run of \<open>generateCode\<close>, the array of every collected function node is the reverse of
  what it was (no two nodes sharing one array), the run's output holds the store sequences of
  the node's parameters in the reverse of the array's order before the run, and a second run on
  the same AST puts the array back and emits the store sequences in the opposite order, the
  array's order before the first run.
\<close>

theorem params_reversed_in_place:
  assumes first: "generateCode m ast s = Inr s1"
    and second: "generateCode m ast s1 = Inr s2"
    and f: "f \<in> set (declarationsOf ast)" and a: "params f = Some a"
    and own: "distinct (paramAddresses (declarationsOf ast))"
  shows "paramArrays s1 a = rev (paramArrays s a) \<and>
         paramArrays s2 a = paramArrays s a \<and>
         (\<exists>pre post. outputLines (codeEmitter s1) =
            outputLines (codeEmitter s) @ pre @
            argumentLines (tables s) f (rev (paramArrays s a)) @
            Section (Some ''Function body.'') # post) \<and>
         (\<exists>pre post. outputLines (codeEmitter s2) =
            outputLines (codeEmitter s1) @ pre @
            argumentLines (tables s) f (paramArrays s a) @
            Section (Some ''Function body.'') # post)"
proof -
  from f have fs: "declarationsOf ast \<noteq> []" by auto
  from first fs obtain G1 Bs1 sG1 where
    o1: "outputLines (codeEmitter s1) =
       outputLines (codeEmitter s) @ bootstrapLines m @ G1 @
       [Instr ''b program_end'' None] @
       functionsLines (paramArrays s) (tables s) (declarationsOf ast) Bs1 @
       [Section None, Label ''program_end'' None]"
    and l1: "length Bs1 = length (declarationsOf ast)"
    and p1: "paramArrays s1 = foldl (\<lambda>ps f. reversedParams f ps) (paramArrays s) (declarationsOf ast)"
    and t1: "tables s1 = tables s"
    by (rule generateCode_with_functions)
  from second fs obtain G2 Bs2 sG2 where
    o2: "outputLines (codeEmitter s2) =
       outputLines (codeEmitter s1) @ bootstrapLines m @ G2 @
       [Instr ''b program_end'' None] @
       functionsLines (paramArrays s1) (tables s1) (declarationsOf ast) Bs2 @
       [Section None, Label ''program_end'' None]"
    and l2: "length Bs2 = length (declarationsOf ast)"
    and p2: "paramArrays s2 = foldl (\<lambda>ps f. reversedParams f ps) (paramArrays s1) (declarationsOf ast)"
    by (rule generateCode_with_functions)
  have r1: "paramArrays s1 a = rev (paramArrays s a)"
    unfolding p1 by (rule foldl_reversedParams_once [OF f a own])
  have r2: "paramArrays s2 a = paramArrays s a"
    unfolding p2 using foldl_reversedParams_once [OF f a own, of "paramArrays s1"] r1 by simp
  from functionsLines_chunk [OF f a own l1, of "paramArrays s" "tables s"] obtain pre1 post1 where
    c1: "functionsLines (paramArrays s) (tables s) (declarationsOf ast) Bs1 =
           pre1 @ argumentLines (tables s) f (rev (paramArrays s a)) @
           Section (Some ''Function body.'') # post1"
    by blast
  from functionsLines_chunk [OF f a own l2, of "paramArrays s1" "tables s1"] obtain pre2 post2 where
    c2: "functionsLines (paramArrays s1) (tables s1) (declarationsOf ast) Bs2 =
           pre2 @ argumentLines (tables s) f (paramArrays s a) @
           Section (Some ''Function body.'') # post2"
    unfolding r1 t1 by auto
  have e1: "outputLines (codeEmitter s1) =
      outputLines (codeEmitter s) @ (bootstrapLines m @ G1 @ [Instr ''b program_end'' None] @ pre1) @
      argumentLines (tables s) f (rev (paramArrays s a)) @
      Section (Some ''Function body.'') # (post1 @ [Section None, Label ''program_end'' None])"
    unfolding o1 c1 by simp
  have e2: "outputLines (codeEmitter s2) =
      outputLines (codeEmitter s1) @ (bootstrapLines m @ G2 @ [Instr ''b program_end'' None] @ pre2) @
      argumentLines (tables s) f (paramArrays s a) @
      Section (Some ''Function body.'') # (post2 @ [Section None, Label ''program_end'' None])"
    unfolding o2 c2 by simp
  from r1 r2 e1 e2 show ?thesis by blast
qed

theorem params_reversed_in_place_witness:
  "\<exists>s1 s2. generateCode 255 twoParamsProgram twoParamsHeap = Inr s1 \<and>
     generateCode 255 twoParamsProgram s1 = Inr s2 \<and>
     paramArrays s1 0 = [''b'', ''a''] \<and> paramArrays s2 0 = [''a'', ''b''] \<and>
     (\<exists>pre post. outputLines (codeEmitter s1) =
        pre @ argumentLines (tables twoParamsHeap) twoParams [''b'', ''a''] @
        Section (Some ''Function body.'') # post) \<and>
     (\<exists>pre post. outputLines (codeEmitter s2) =
        outputLines (codeEmitter s1) @ pre @
        argumentLines (tables twoParamsHeap) twoParams [''a'', ''b''] @
        Section (Some ''Function body.'') # post)"
proof -
  from twoParamsProgram_runs [of twoParamsHeap 255] obtain s1 where
    first: "generateCode 255 twoParamsProgram twoParamsHeap = Inr s1"
    by (auto simp: twoParamsHeap_simps)
  have fs: "declarationsOf twoParamsProgram \<noteq> []"
    by (simp add: declarationsOf_twoParamsProgram)
  from first fs obtain G Bs sG where
    p1: "paramArrays s1 = foldl (\<lambda>ps f. reversedParams f ps) (paramArrays twoParamsHeap)
           (declarationsOf twoParamsProgram)"
    and t1: "tables s1 = tables twoParamsHeap"
    by (rule generateCode_with_functions)
  have a1: "paramArrays s1 0 = [''b'', ''a'']"
    by (simp add: p1 declarationsOf_twoParamsProgram reversedParams_def twoParams_simps
        twoParamsHeap_simps)
  from twoParamsProgram_runs [OF t1, of 255] a1 obtain s2 where
    second: "generateCode 255 twoParamsProgram s1 = Inr s2"
    by auto
  have f: "twoParams \<in> set (declarationsOf twoParamsProgram)"
    and own: "distinct (paramAddresses (declarationsOf twoParamsProgram))"
    by (simp_all add: declarationsOf_twoParamsProgram twoParams_simps)
  from params_reversed_in_place [OF first second f twoParams_simps(4) own] first second
  show ?thesis
    by (simp add: twoParamsHeap_simps)
qed

section \<open>Which functions are collected, and in which order\<close>

definition isDeclaration :: "node \<Rightarrow> bool" where
  "isDeclaration n = (nodeType n = ''function-declaration'')"

text \<open>
  All nodes of an AST, a node before the nodes below it: the condition or operands in
  \<^verbatim>\<open>children\<close> first, then the sub-structures held by the other attributes.
\<close>

fun subnodes :: "node \<Rightarrow> node list" and subnodesEach :: "node list \<Rightarrow> node list" where
  "subnodes n =
     n # (case children n of None \<Rightarrow> [] | Some cs \<Rightarrow> subnodesEach cs) @
         (case functionArgs n of None \<Rightarrow> [] | Some cs \<Rightarrow> subnodesEach cs) @
         (case assignee n of None \<Rightarrow> [] | Some b \<Rightarrow> subnodes b) @
         (case initializer n of None \<Rightarrow> [] | Some b \<Rightarrow> subnodes b) @
         (case ifBlock n of None \<Rightarrow> [] | Some b \<Rightarrow> subnodes b) @
         (case elseBlock n of None \<Rightarrow> [] | Some b \<Rightarrow> subnodes b) @
         (case body n of None \<Rightarrow> [] | Some b \<Rightarrow> subnodes b)"
| "subnodesEach [] = []"
| "subnodesEach (c # cs) = subnodes c @ subnodesEach cs"

declare subnodes.simps [simp del]

text \<open>The nodes reached through \<^verbatim>\<open>children\<close> lists alone: a node before, or after, its children.\<close>

fun preorder :: "node \<Rightarrow> node list" and preorderEach :: "node list \<Rightarrow> node list" where
  "preorder n = n # (case children n of None \<Rightarrow> [] | Some cs \<Rightarrow> preorderEach cs)"
| "preorderEach [] = []"
| "preorderEach (c # cs) = preorder c @ preorderEach cs"

fun postorder :: "node \<Rightarrow> node list" and postorderEach :: "node list \<Rightarrow> node list" where
  "postorder n = (case children n of None \<Rightarrow> [] | Some cs \<Rightarrow> postorderEach cs) @ [n]"
| "postorderEach [] = []"
| "postorderEach (c # cs) = postorder c @ postorderEach cs"

declare preorder.simps [simp del]
declare postorder.simps [simp del]



lemma declarationsOf_postorder:
  "declarationsOf n = filter isDeclaration (postorder n)"
  "declarationsOfEach ns = filter isDeclaration (postorderEach ns)"
proof (induction n and ns rule: declarationsOf_declarationsOfEach.induct)
  case (1 n)
  show ?case
  proof (cases "children n")
    case None
    then show ?thesis by (simp add: declarationsOf.simps postorder.simps isDeclaration_def)
  next
    case (Some cs)
    with "1.IH" [OF Some] show ?thesis
      by (simp add: declarationsOf.simps postorder.simps isDeclaration_def)
  qed
next
  case 2
  show ?case by simp
next
  case (3 c cs)
  then show ?case by simp
qed

lemma set_preorder_postorder:
  "set (preorder n) = set (postorder n)"
  "set (preorderEach ns) = set (postorderEach ns)"
proof (induction n and ns rule: preorder_preorderEach.induct)
  case (1 n)
  show ?case
  proof (cases "children n")
    case None
    then show ?thesis by (simp add: preorder.simps postorder.simps)
  next
    case (Some cs)
    with "1.IH" [OF Some] show ?thesis by (simp add: preorder.simps postorder.simps)
  qed
next
  case 2
  show ?case by simp
next
  case (3 c cs)
  then show ?case by simp
qed






subsection \<open>Programs with a declaration out of reach, and with nested declarations\<close>

definition emptyBlock :: node where
  "emptyBlock = setChildren (Some []) (emptyNode ''block'')"

definition functionNamed :: "string \<Rightarrow> node" where
  "functionNamed nm =
     Node ''function-declaration'' None (Some nm) None None None None None None
       (Some emptyBlock) None None None (Some twoParamsScope) None None None None"

definition hiddenDeclaration :: node where
  "hiddenDeclaration =
     setChildren (Some [
       setIfBlock (Some (setChildren (Some [functionNamed ''f'']) (emptyNode ''block'')))
         (setChildren (Some [setValue (Some ''1'') (emptyNode ''number'')])
            (emptyNode ''if-statement''))])
       (emptyNode ''block'')"

definition outerFunction :: node where
  "outerFunction = setChildren (Some [functionNamed ''inner'']) (functionNamed ''outer'')"

definition nestedDeclaration :: node where
  "nestedDeclaration = setChildren (Some [outerFunction]) (emptyNode ''block'')"

lemma isDeclaration_simps [simp]:
  "isDeclaration (Node t c n va oc ar ia ir p b i sy sys sc ib eb fa asg) \<longleftrightarrow>
     t = ''function-declaration''"
  by (simp add: isDeclaration_def)

text \<open>
  A declaration in the block of an if-statement is a node of the AST that \<open>collectFunctions\<close>,
  descending through \<^verbatim>\<open>children\<close> only, does not meet.
\<close>

lemma declaration_in_if_block:
  "functionNodes (collectFunctions hiddenDeclaration (newCodeGenerator (\<lambda>_. []) (\<lambda>_. []) (\<lambda>_. []))) = [] \<and>
   filter isDeclaration (subnodes hiddenDeclaration) = [functionNamed ''f'']"
  by (simp add: collectFunctions_eq declarationsOf.simps subnodes.simps hiddenDeclaration_def
      functionNamed_def emptyBlock_def emptyNode_def newCodeGenerator_def)

definition nestedProgram :: node where
  "nestedProgram = setChildren (Some [outerFunction, functionNamed ''last'']) (emptyNode ''block'')"

definition flatProgram :: node where
  "flatProgram =
     setChildren (Some [functionNamed ''first'', functionNamed ''second'']) (emptyNode ''block'')"

lemma functionNamed_simps:
  "nodeType (functionNamed nm) = ''function-declaration''"
  "children (functionNamed nm) = None"
  "name (functionNamed nm) = Some nm"
  "params (functionNamed nm) = None"
  "scope (functionNamed nm) = Some twoParamsScope"
  "body (functionNamed nm) = Some emptyBlock"
  by (simp_all add: functionNamed_def)

lemma outerFunction_simps:
  "nodeType outerFunction = ''function-declaration''"
  "children outerFunction = Some [functionNamed ''inner'']"
  "name outerFunction = Some ''outer''"
  "params outerFunction = None"
  "scope outerFunction = Some twoParamsScope"
  "body outerFunction = Some emptyBlock"
  by (simp_all add: outerFunction_def functionNamed_def)

lemma program_simps:
  "nodeType nestedProgram = ''block''"
  "children nestedProgram = Some [outerFunction, functionNamed ''last'']"
  "nodeType flatProgram = ''block''"
  "children flatProgram = Some [functionNamed ''first'', functionNamed ''second'']"
  by (simp_all add: nestedProgram_def flatProgram_def emptyNode_def)

lemma walk_without_visitor:
  assumes "nodeType n \<notin> set [''expr-statement'', ''return-statement'', ''declare-variable'',
      ''while-statement'', ''function-call'']"
    and "nodeType n \<notin> set [''number'', ''string-literal'', ''operation'', ''expr-statement'',
      ''return-statement'', ''declare-variable'', ''access-variable'', ''assignment-statement'',
      ''if-statement'', ''while-statement'', ''function-call'']"
  shows "internalGenerateCode n s =
     (case children n of None \<Rightarrow> Inr s | Some cs \<Rightarrow> generateEach cs s)"
  by (simp add: internalGenerateCode.simps [of n] visitorsPre_other [OF assms(1)]
      visitorsPost_other [OF assms(2)] split: sum.splits)

lemma walk_functionNamed: "internalGenerateCode (functionNamed nm) s = Inr s"
  by (subst walk_without_visitor) (simp_all add: functionNamed_simps)

lemma walk_outerFunction: "internalGenerateCode outerFunction s = Inr s"
  by (subst walk_without_visitor) (simp_all add: outerFunction_simps walk_functionNamed)

lemma walk_programs:
  "internalGenerateCode nestedProgram s = Inr s"
  "internalGenerateCode flatProgram s = Inr s"
  by (subst walk_without_visitor;
      simp add: program_simps walk_functionNamed walk_outerFunction)+

lemma walk_emptyBlock: "internalGenerateCode emptyBlock s = Inr s"
  unfolding emptyBlock_def by (rule emptyBlock_walk)

lemma function_runs:
  assumes "scope f = Some sc" and "params f = None" and "body f = Some emptyBlock"
  shows "\<exists>s'. generateFunctionCode f s = Inr s'"
  by (simp add: generateFunctionCode_eq setupArguments_eq assms walk_emptyBlock)

lemma declarations_of_programs:
  "declarationsOf nestedProgram = [functionNamed ''inner'', outerFunction, functionNamed ''last'']"
  "declarationsOf flatProgram = [functionNamed ''first'', functionNamed ''second'']"
  by (simp_all add: declarationsOf.simps program_simps functionNamed_simps outerFunction_simps)

lemma programs_run:
  "\<exists>s'. generateCode m nestedProgram s = Inr s'"
  "\<exists>s'. generateCode m flatProgram s = Inr s'"
  by (simp_all add: generateCode_eq declarations_of_programs walk_programs
      generateFunctionCode_eq setupArguments_eq functionNamed_simps outerFunction_simps
      walk_emptyBlock)


lemma source_order_of_programs:
  "filter isDeclaration (subnodes nestedProgram) =
     [outerFunction, functionNamed ''inner'', functionNamed ''last'']"
  "filter isDeclaration (preorder nestedProgram) =
     [outerFunction, functionNamed ''inner'', functionNamed ''last'']"
  "filter isDeclaration (postorder nestedProgram) =
     [functionNamed ''inner'', outerFunction, functionNamed ''last'']"
  "filter isDeclaration (subnodes flatProgram) = [functionNamed ''first'', functionNamed ''second'']"
  "filter isDeclaration (preorder flatProgram) = [functionNamed ''first'', functionNamed ''second'']"
  "filter isDeclaration (postorder flatProgram) = [functionNamed ''first'', functionNamed ''second'']"
  by (simp_all add: subnodes.simps preorder.simps postorder.simps nestedProgram_def
      flatProgram_def outerFunction_def functionNamed_def emptyBlock_def emptyNode_def)




definition freshHeap :: CodeGenerator where
  "freshHeap = newCodeGenerator (\<lambda>_. []) (\<lambda>_. []) (\<lambda>_. [])"




section \<open>Assignments the resolver does not reach\<close>

definition declareX :: node where
  "declareX = setName (Some ''x'') (emptyNode ''declare-variable'')"

definition assignBlock :: node where
  "assignBlock = setChildren (Some [assignTo (accessOf ''x'')]) (emptyNode ''block'')"

definition conditionOne :: node where
  "conditionOne = setValue (Some ''1'') (emptyNode ''number'')"

definition whileProgram :: node where
  "whileProgram =
     setChildren (Some [declareX,
        setBody (Some assignBlock)
          (setChildren (Some [conditionOne]) (emptyNode ''while-statement''))])
       (emptyNode ''block'')"

definition ifProgram :: node where
  "ifProgram =
     setChildren (Some [declareX,
        setIfBlock (Some assignBlock)
          (setChildren (Some [conditionOne]) (emptyNode ''if-statement''))])
       (emptyNode ''block'')"

definition freshGenerator :: "resolver \<Rightarrow> CodeGenerator" where
  "freshGenerator r = newCodeGenerator (\<lambda>_. []) (\<lambda>_. []) (tableStore r)"

lemmas example_defs = whileProgram_def ifProgram_def declareX_def assignBlock_def conditionOne_def
  assignTo_def accessOf_def emptyNode_def

lemmas resolver_defs = resolveSymbols_def newSymbolTable_def internalResolveSymbols.simps
  nodeHandlers.simps declareHandler_def defineSymbol_def isDefinedLocally_def getNumSymbols_def
  assignmentStatementHandler_def accessVariableHandler_def inheritedHandler_def
  objectPrototypeNames_def Let_def

definition resolvedTables :: resolver where
  "resolvedTables = \<lparr>tableStore = (\<lambda>_. [])(0 := [(Some ''x'', xVariable)]), nextTableId = 1\<rparr>"

definition whileResolved :: node where
  "whileResolved =
     setChildren (Some [setSymbol (Some xVariable) declareX,
        setBody (Some assignBlock)
          (setChildren (Some [conditionOne]) (emptyNode ''while-statement''))])
       (emptyNode ''block'')"

definition ifResolved :: node where
  "ifResolved =
     setChildren (Some [setSymbol (Some xVariable) declareX,
        setIfBlock (Some (setChildren (Some [setSymbol (Some xVariable) (assignTo (accessOf ''x''))])
              (emptyNode ''block'')))
          (setChildren (Some [conditionOne]) (emptyNode ''if-statement''))])
       (emptyNode ''block'')"

lemma resolve_whileProgram: "resolveSymbols whileProgram = Inr (whileResolved, resolvedTables)"
  by (simp add: example_defs resolver_defs whileResolved_def resolvedTables_def xVariable_def)

lemma resolve_ifProgram: "resolveSymbols ifProgram = Inr (ifResolved, resolvedTables)"
  by (simp add: example_defs resolver_defs ifResolved_def resolvedTables_def xVariable_def)

lemmas generator_defs = generateCode_def collectFunctions.simps internalGenerateCode.simps
  visitorsPre.simps visitorsPost.simps generateArgs.simps numberPost_def
  assignmentStatementPost_def storeSymbol_def whileStatementPre_def emit_def add_def emitter_def
  label_def popAll_def resetStack_def addSection_def freshGenerator_def newCodeGenerator_def
  Let_def str_def strNat_def

lemma generate_whileResolved:
  "generateCode 255 whileResolved (freshGenerator resolvedTables) = Inl NoAssignmentTarget"
  by (simp add: example_defs whileResolved_def generator_defs)

lemma generate_ifResolved:
  "\<exists>s'. generateCode 255 ifResolved (freshGenerator resolvedTables) = Inr s'"
  by (simp add: example_defs ifResolved_def generator_defs xVariable_def)

text \<open>
  C10. The resolver has no handler for \<^verbatim>\<open>while-statement\<close>, so it never reaches an assignment
  in the body of a loop: the tree it returns for \<open>whileProgram\<close> carries no symbol on that
  assignment, and the generator stops with NoAssignmentTarget. The same assignment in the block
  of an if-statement is reached by the handler for \<^verbatim>\<open>if-statement\<close>, and the generator returns.
\<close>

theorem while_body_assignment_has_no_target:
  "(\<exists>ast r. resolveSymbols whileProgram = Inr (ast, r) \<and>
      generateCode 255 ast (freshGenerator r) = Inl NoAssignmentTarget) \<and>
   (\<exists>ast r s'. resolveSymbols ifProgram = Inr (ast, r) \<and>
      generateCode 255 ast (freshGenerator r) = Inr s')"
  using generate_ifResolved
  by (simp add: resolve_whileProgram resolve_ifProgram generate_whileResolved)

section \<open>The globals pass and the bodies of functions\<close>

text \<open>
  The AST without the bodies of its functions: every \<^verbatim>\<open>function-declaration\<close> node, wherever
  it sits, loses its \<^verbatim>\<open>body\<close>; nothing else changes.
\<close>

primrec stripBodies :: "node \<Rightarrow> node" where
  "stripBodies (Node t c nm v oc ar ia ir p b i sy sys sc ib eb fa asg) =
     Node t (map_option (map stripBodies) c) nm v oc ar ia ir p
       (if t = ''function-declaration'' then None else map_option stripBodies b)
       (map_option stripBodies i) sy sys sc
       (map_option stripBodies ib) (map_option stripBodies eb)
       (map_option (map stripBodies) fa) (map_option stripBodies asg)"

lemma stripBodies_simps [simp]:
  "nodeType (stripBodies n) = nodeType n"
  "children (stripBodies n) = map_option (map stripBodies) (children n)"
  "name (stripBodies n) = name n"
  "nodeValue (stripBodies n) = nodeValue n"
  "opcode (stripBodies n) = opcode n"
  "args (stripBodies n) = args n"
  "numItemsAdded (stripBodies n) = numItemsAdded n"
  "numItemsRemoved (stripBodies n) = numItemsRemoved n"
  "params (stripBodies n) = params n"
  "initializer (stripBodies n) = map_option stripBodies (initializer n)"
  "symbol (stripBodies n) = symbol n"
  "symbols (stripBodies n) = symbols n"
  "scope (stripBodies n) = scope n"
  "ifBlock (stripBodies n) = map_option stripBodies (ifBlock n)"
  "elseBlock (stripBodies n) = map_option stripBodies (elseBlock n)"
  "functionArgs (stripBodies n) = map_option (map stripBodies) (functionArgs n)"
  "assignee (stripBodies n) = map_option stripBodies (assignee n)"
  by (cases n; simp)+

lemma body_stripBodies:
  "body (stripBodies n) =
     (if nodeType n = ''function-declaration'' then None else map_option stripBodies (body n))"
  by (cases n) simp

declare stripBodies.simps [simp del]

lemma stripBodies_hooks [simp]:
  "numberPost (stripBodies n) = numberPost n"
  "stringLiteralPost (stripBodies n) = stringLiteralPost n"
  "operationPost (stripBodies n) = operationPost n"
  "returnStatementPost (stripBodies n) = returnStatementPost n"
  "accessVariablePost (stripBodies n) = accessVariablePost n"
  "assignmentStatementPost (stripBodies n) = assignmentStatementPost n"
  "whileStatementPre (stripBodies n) = whileStatementPre n"
  "callsub (stripBodies n) = callsub n"
  "inheritedMember (stripBodies n) = inheritedMember n"
  by (simp_all add: fun_eq_iff numberPost_def stringLiteralPost_def operationPost_def
      returnStatementPost_def accessVariablePost_def assignmentStatementPost_def
      whileStatementPre_def callsub_def inheritedMember_def split: option.splits)

lemma stripBodies_itxn_field [simp]: "itxn_field (stripBodies n) s = itxn_field n s"
  by (simp add: itxn_field_def split: option.splits list.splits)

lemma size_member: "c \<in> set cs \<Longrightarrow> size c \<le> size_list size cs"
  by (induction cs) auto

lemma stripBodies_each:
  assumes "\<And>c s. c \<in> set cs \<Longrightarrow> internalGenerateCode (stripBodies c) s = internalGenerateCode c s"
  shows "generateEach (map stripBodies cs) s = generateEach cs s"
  using assms by (induction cs arbitrary: s) (simp_all split: sum.splits)

lemma stripBodies_step:
  assumes IH: "\<And>m s. size m < size n \<Longrightarrow>
      internalGenerateCode (stripBodies m) s = internalGenerateCode m s"
  shows "internalGenerateCode (stripBodies n) s = internalGenerateCode n s"
proof -
  have each: "generateEach (map stripBodies cs) s = generateEach cs s"
    if "size_list size cs < size n" for cs s
  proof (rule stripBodies_each)
    fix c s assume "c \<in> set cs"
    from size_member [OF this] that have "size c < size n" by simp
    then show "internalGenerateCode (stripBodies c) s = internalGenerateCode c s" by (rule IH)
  qed
  have ch: "(case children (stripBodies n) of None \<Rightarrow> Inr s | Some cs \<Rightarrow> generateEach cs s) =
      (case children n of None \<Rightarrow> Inr s | Some cs \<Rightarrow> generateEach cs s)" for s
    by (cases "children n") (simp_all add: each size_children)
  have ar: "generateArgs (stripBodies n) s = generateArgs n s" for s
    by (cases "functionArgs n") (simp_all add: generateArgs.simps each size_functionArgs)
  have pre: "visitorsPre (stripBodies n) s = visitorsPre n s" for s
    by (simp add: visitorsPre.simps [of "stripBodies n"] visitorsPre.simps [of n] ar)
  have bi: "builtins (stripBodies n) s = builtins n s" for s
    by (simp add: builtins.simps [of "stripBodies n"] builtins.simps [of n] ar)
  have post: "visitorsPost (stripBodies n) c s = visitorsPost n c s" for c s
  proof (cases "nodeType n" rule: nodeType_cases)
    case 1 then show ?thesis by (simp add: visitorsPost_number)
  next
    case 2 then show ?thesis by (simp add: visitorsPost_stringLiteral)
  next
    case 3 then show ?thesis by (simp add: visitorsPost_operation)
  next
    case 4 then show ?thesis by (simp add: visitorsPost_exprStatement)
  next
    case 5 then show ?thesis by (simp add: visitorsPost_returnStatement)
  next
    case 6 then show ?thesis
      by (cases "initializer n") (simp_all add: visitorsPost_declareVariable IH size_initializer)
  next
    case 7 then show ?thesis by (simp add: visitorsPost_accessVariable)
  next
    case 8 then show ?thesis by (simp add: visitorsPost_assignmentStatement)
  next
    case 9
    have ifB: "(case ifBlock (stripBodies n) of None \<Rightarrow> Inl TypeError
                | Some b \<Rightarrow> internalGenerateCode b s) =
               (case ifBlock n of None \<Rightarrow> Inl TypeError
                | Some b \<Rightarrow> internalGenerateCode b s)" for s
      by (cases "ifBlock n") (simp_all add: IH size_ifBlock)
    have elB: "(case elseBlock (stripBodies n) of None \<Rightarrow> Inr s
                | Some b \<Rightarrow> internalGenerateCode b s) =
               (case elseBlock n of None \<Rightarrow> Inr s
                | Some b \<Rightarrow> internalGenerateCode b s)" for s
      by (cases "elseBlock n") (simp_all add: IH size_elseBlock)
    from 9 show ?thesis
      by (simp only: visitorsPost_ifStatement stripBodies_simps(1) ifB elB cong: sum.case_cong)
  next
    case 10
    then have b: "body (stripBodies n) = map_option stripBodies (body n)"
      by (simp add: body_stripBodies)
    have bd: "(case body (stripBodies n) of None \<Rightarrow> Inl TypeError
                | Some b \<Rightarrow> internalGenerateCode b s) =
              (case body n of None \<Rightarrow> Inl TypeError
                | Some b \<Rightarrow> internalGenerateCode b s)" for s
      unfolding b by (cases "body n") (simp_all add: IH size_body)
    from 10 show ?thesis
      by (cases "children n")
        (simp_all add: visitorsPost_whileStatement bd cong: sum.case_cong)
  next
    case 11 then show ?thesis by (simp add: visitorsPost_functionCall bi)
  next
    case 12
    then show ?thesis by (simp add: visitorsPost_other del: set_simps)
  qed
  from post have post': "visitorsPost (stripBodies n) = visitorsPost n"
    by (intro ext)
  show ?thesis
    by (simp only: internalGenerateCode.simps [of "stripBodies n"] internalGenerateCode.simps [of n]
        pre ch post')
qed

lemma stripBodies_walk: "internalGenerateCode (stripBodies n) s = internalGenerateCode n s"
proof (induction n arbitrary: s rule: measure_induct_rule [of size])
  case (less n)
  show ?case by (rule stripBodies_step) (rule less)
qed


text \<open>
  C1. The globals pass does not look at the bodies of functions: the walk of an AST and the
  walk of the same AST without its function bodies do the same, from any state. At a
  \<^verbatim>\<open>function-declaration\<close> node neither hook does anything, so its visit is the generic
  visit of its children. And when \<open>generateCode\<close> returns on an AST with functions, what it
  emitted before the branch to \<^verbatim>\<open>program_end\<close> is the bootstrap and the lines \<open>G\<close> of the walk
  of the AST without its function bodies; the lines of the functions, each with the lines \<open>B\<close>
  that the walk of its body emits, come after the branch.
\<close>

theorem globals_pass_skips_function_bodies:
  "internalGenerateCode (stripBodies ast) s = internalGenerateCode ast s \<and>
   (nodeType ast = ''function-declaration'' \<longrightarrow>
      internalGenerateCode ast s =
        (case children ast of None \<Rightarrow> Inr s | Some cs \<Rightarrow> generateEach cs s)) \<and>
   (\<forall>s'. generateCode m ast s = Inr s' \<and> declarationsOf ast \<noteq> [] \<longrightarrow>
      (\<exists>G Bs sG.
         internalGenerateCode (stripBodies ast)
           (emitLines (bootstrapLines m) 0 (started ast s)) = Inr sG \<and>
         outputLines (codeEmitter sG) = outputLines (codeEmitter s) @ bootstrapLines m @ G \<and>
         outputLines (codeEmitter s') =
           outputLines (codeEmitter s) @ bootstrapLines m @ G @
           [Instr ''b program_end'' None] @
           functionsLines (paramArrays s) (tables s) (declarationsOf ast) Bs @
           [Section None, Label ''program_end'' None] \<and>
         length Bs = length (declarationsOf ast) \<and>
         list_all2 emittedByBody (declarationsOf ast) Bs))"
proof (intro conjI allI impI)
  show "internalGenerateCode (stripBodies ast) s = internalGenerateCode ast s"
    by (rule stripBodies_walk)
next
  assume t: "nodeType ast = ''function-declaration''"
  have pre: "visitorsPre ast s = Inr (s, None)" for s
    by (rule visitorsPre_other) (simp add: t)
  have post: "visitorsPost ast c s = Inr s" for c s
    by (rule visitorsPost_other) (simp add: t)
  show "internalGenerateCode ast s =
      (case children ast of None \<Rightarrow> Inr s | Some cs \<Rightarrow> generateEach cs s)"
    by (simp add: internalGenerateCode.simps [of ast] pre post split: sum.splits)
next
  fix s'
  assume "generateCode m ast s = Inr s' \<and> declarationsOf ast \<noteq> []"
  then have run: "generateCode m ast s = Inr s'" and fs: "declarationsOf ast \<noteq> []"
    by blast+
  from run fs obtain G Bs sG where
    "internalGenerateCode ast (emitLines (bootstrapLines m) 0 (started ast s)) = Inr sG"
    "outputLines (codeEmitter sG) = outputLines (codeEmitter s) @ bootstrapLines m @ G"
    "outputLines (codeEmitter s') =
       outputLines (codeEmitter s) @ bootstrapLines m @ G @
       [Instr ''b program_end'' None] @
       functionsLines (paramArrays s) (tables s) (declarationsOf ast) Bs @
       [Section None, Label ''program_end'' None]"
    "length Bs = length (declarationsOf ast)"
    "list_all2 emittedByBody (declarationsOf ast) Bs"
    by (rule generateCode_with_functions)
  then show "\<exists>G Bs sG.
         internalGenerateCode (stripBodies ast)
           (emitLines (bootstrapLines m) 0 (started ast s)) = Inr sG \<and>
         outputLines (codeEmitter sG) = outputLines (codeEmitter s) @ bootstrapLines m @ G \<and>
         outputLines (codeEmitter s') =
           outputLines (codeEmitter s) @ bootstrapLines m @ G @
           [Instr ''b program_end'' None] @
           functionsLines (paramArrays s) (tables s) (declarationsOf ast) Bs @
           [Section None, Label ''program_end'' None] \<and>
         length Bs = length (declarationsOf ast) \<and>
         list_all2 emittedByBody (declarationsOf ast) Bs"
    unfolding stripBodies_walk by blast
qed


definition exprStatement :: "string \<Rightarrow> node" where
  "exprStatement v =
     setChildren (Some [setValue (Some v) (emptyNode ''number'')]) (emptyNode ''expr-statement'')"

definition sevenFunction :: node where
  "sevenFunction =
     Node ''function-declaration'' None (Some ''f'') None None None None None None
       (Some (setChildren (Some [exprStatement ''7'']) (emptyNode ''block''))) None None None
       (Some twoParamsScope) None None None None"

definition oneThenFunction :: node where
  "oneThenFunction = setChildren (Some [exprStatement ''1'', sevenFunction]) (emptyNode ''block'')"

lemma walk_exprStatement:
  "internalGenerateCode (exprStatement v) s =
     Inr (s\<lparr>codeEmitter :=
       \<lparr>outputLines = outputLines (codeEmitter s) @ [Instr (''int '' @ v) None, Instr ''pop'' None],
        stackSize = 0\<rparr>\<rparr>)"
  by (simp add: exprStatement_def emptyNode_def internalGenerateCode.simps visitorsPre.simps
      visitorsPost.simps numberPost_def emit_eq emitter_def popAll_def resetStack_def str_def)

lemma sevenFunction_simps:
  "nodeType sevenFunction = ''function-declaration''"
  "children sevenFunction = None"
  "params sevenFunction = None"
  "scope sevenFunction = Some twoParamsScope"
  "body sevenFunction = Some (setChildren (Some [exprStatement ''7'']) (emptyNode ''block''))"
  by (simp_all add: sevenFunction_def)

lemma oneThenFunction_simps:
  "nodeType oneThenFunction = ''block''"
  "children oneThenFunction = Some [exprStatement ''1'', sevenFunction]"
  by (simp_all add: oneThenFunction_def emptyNode_def)

lemma walk_sevenFunction: "internalGenerateCode sevenFunction s = Inr s"
  by (subst walk_without_visitor) (simp_all add: sevenFunction_simps)

lemma walk_sevenBody:
  "internalGenerateCode (setChildren (Some [exprStatement ''7'']) (emptyNode ''block'')) s =
     Inr (s\<lparr>codeEmitter :=
       \<lparr>outputLines = outputLines (codeEmitter s) @ [Instr ''int 7'' None, Instr ''pop'' None],
        stackSize = 0\<rparr>\<rparr>)"
  by (subst walk_without_visitor) (simp_all add: emptyNode_def walk_exprStatement)

lemma walk_oneThenFunction:
  "internalGenerateCode oneThenFunction s =
     Inr (s\<lparr>codeEmitter :=
       \<lparr>outputLines = outputLines (codeEmitter s) @ [Instr ''int 1'' None, Instr ''pop'' None],
        stackSize = 0\<rparr>\<rparr>)"
  by (subst walk_without_visitor)
    (simp_all add: oneThenFunction_simps walk_exprStatement walk_sevenFunction)

lemma declarationsOf_oneThenFunction: "declarationsOf oneThenFunction = [sevenFunction]"
  by (simp add: declarationsOf.simps oneThenFunction_simps sevenFunction_simps
      exprStatement_def emptyNode_def)

lemma generate_oneThenFunction:
  "\<exists>s'. generateCode 255 oneThenFunction freshHeap = Inr s' \<and>
     outputLines (codeEmitter s') =
       bootstrapLines 255 @ [Instr ''int 1'' None, Instr ''pop'' None] @
       [Instr ''b program_end'' None] @
       prologueLines (\<lambda>_. []) sevenFunction @
       [Section (Some ''Function body.''), Instr ''int 7'' None, Instr ''pop'' None] @
       epilogueLines sevenFunction @ [Section None, Label ''program_end'' None]"
  by (simp add: generateCode_eq declarationsOf_oneThenFunction walk_oneThenFunction
      generateFunctionCode_eq setupArguments_eq sevenFunction_simps walk_sevenBody
      freshHeap_def newCodeGenerator_def emitLines_def started_def)

theorem globals_pass_skips_function_bodies_witness:
  "internalGenerateCode sevenFunction freshHeap = Inr freshHeap \<and>
   (\<exists>sG. internalGenerateCode (stripBodies oneThenFunction)
            (emitLines (bootstrapLines 255) 0 (started oneThenFunction freshHeap)) = Inr sG \<and>
      outputLines (codeEmitter sG) =
        bootstrapLines 255 @ [Instr ''int 1'' None, Instr ''pop'' None]) \<and>
   (\<exists>s'. generateCode 255 oneThenFunction freshHeap = Inr s' \<and>
      outputLines (codeEmitter s') =
        bootstrapLines 255 @ [Instr ''int 1'' None, Instr ''pop'' None] @
        [Instr ''b program_end'' None] @
        prologueLines (\<lambda>_. []) sevenFunction @
        [Section (Some ''Function body.''), Instr ''int 7'' None, Instr ''pop'' None] @
        epilogueLines sevenFunction @ [Section None, Label ''program_end'' None] \<and>
      (\<exists>G Bs. outputLines (codeEmitter s') =
         bootstrapLines 255 @ G @ [Instr ''b program_end'' None] @
         functionsLines (\<lambda>_. []) (\<lambda>_. []) [sevenFunction] Bs @
         [Section None, Label ''program_end'' None] \<and>
         list_all2 emittedByBody [sevenFunction] Bs))"
proof -
  note th = globals_pass_skips_function_bodies [of oneThenFunction]
  from globals_pass_skips_function_bodies [of sevenFunction freshHeap, THEN conjunct2, THEN conjunct1]
  have c1: "internalGenerateCode sevenFunction freshHeap = Inr freshHeap"
    by (simp add: sevenFunction_simps)
  from th [of "emitLines (bootstrapLines 255) 0 (started oneThenFunction freshHeap)", THEN conjunct1]
  have c2: "\<exists>sG. internalGenerateCode (stripBodies oneThenFunction)
            (emitLines (bootstrapLines 255) 0 (started oneThenFunction freshHeap)) = Inr sG \<and>
      outputLines (codeEmitter sG) =
        bootstrapLines 255 @ [Instr ''int 1'' None, Instr ''pop'' None]"
    by (simp add: walk_oneThenFunction freshHeap_def newCodeGenerator_def)
  from generate_oneThenFunction obtain s' where
    run: "generateCode 255 oneThenFunction freshHeap = Inr s'"
    and out: "outputLines (codeEmitter s') =
        bootstrapLines 255 @ [Instr ''int 1'' None, Instr ''pop'' None] @
        [Instr ''b program_end'' None] @
        prologueLines (\<lambda>_. []) sevenFunction @
        [Section (Some ''Function body.''), Instr ''int 7'' None, Instr ''pop'' None] @
        epilogueLines sevenFunction @ [Section None, Label ''program_end'' None]"
    by blast
  from th [of freshHeap 255, THEN conjunct2, THEN conjunct2, rule_format, of s'] run
  have "\<exists>G Bs. outputLines (codeEmitter s') =
         bootstrapLines 255 @ G @ [Instr ''b program_end'' None] @
         functionsLines (\<lambda>_. []) (\<lambda>_. []) [sevenFunction] Bs @
         [Section None, Label ''program_end'' None] \<and>
         list_all2 emittedByBody [sevenFunction] Bs"
    by (auto simp: declarationsOf_oneThenFunction freshHeap_def newCodeGenerator_def)
  with c1 c2 run out show ?thesis by blast
qed

section \<open>The bootstrap, the branch and the label at the end\<close>

lemma labelNames_paramLines: "labelNames (concat (map (paramLines ts f) ps)) = []"
  by (induction ps) (simp_all add: paramLines_def split: option.splits)

lemma labelNames_functionLines:
  "labelNames (functionLines ps ts f B) =
     str (name f) # labelNames B @ [str (name f) @ ''-cleanup'']"
  by (simp add: functionLines_def prologueLines_def epilogueLines_def argumentLines_def
      labelNames_paramLines split: option.splits)

lemma labelNames_functionsLines:
  "length Bs = length fs \<Longrightarrow>
     set (labelNames (functionsLines ps ts fs Bs)) =
       (\<lambda>f. str (name f)) ` set fs \<union> (\<lambda>f. str (name f) @ ''-cleanup'') ` set fs \<union>
       set (labelNames (concat Bs))"
proof (induction fs arbitrary: ps Bs)
  case Nil
  then show ?case by simp
next
  case (Cons f fs)
  from Cons.prems obtain B Bs' where Bs: "Bs = B # Bs'" and len: "length Bs' = length fs"
    by (cases Bs) auto
  from Cons.IH [OF len, of "reversedParams f ps"] show ?case
    unfolding Bs by (simp add: labelNames_functionLines) blast
qed

lemma program_end_not_control: "''program_end'' \<notin> idNames lo hi"
  by (simp add: idNames_def controlLabels_def)

lemma program_end_not_cleanup: "x @ ''-cleanup'' \<noteq> ''program_end''"
proof
  assume "x @ ''-cleanup'' = ''program_end''"
  then have "last (x @ ''-cleanup'') = last ''program_end''" by (rule arg_cong)
  then show False by simp
qed

lemma str_name: "name f \<noteq> Some ''program_end'' \<Longrightarrow> str (name f) \<noteq> ''program_end''"
  by (cases "name f") (simp_all add: str_def)


text \<open>The names of the labels in the output of a run, in order.\<close>

definition compiledLabels :: "nat \<Rightarrow> node \<Rightarrow> CodeGenerator \<Rightarrow> error + string list" where
  "compiledLabels m ast s =
     (case generateCode m ast s of
        Inl e \<Rightarrow> Inl e
      | Inr s' \<Rightarrow> Inr (labelNames (outputLines (codeEmitter s'))))"

definition endNamedProgram :: node where
  "endNamedProgram = setChildren (Some [functionNamed ''program_end'']) (emptyNode ''block'')"

lemma endNamedProgram_simps:
  "nodeType endNamedProgram = ''block''"
  "children endNamedProgram = Some [functionNamed ''program_end'']"
  by (simp_all add: endNamedProgram_def emptyNode_def)

lemma walk_endNamedProgram: "internalGenerateCode endNamedProgram s = Inr s"
  by (subst walk_without_visitor) (simp_all add: endNamedProgram_simps walk_functionNamed)

lemma declarationsOf_endNamedProgram:
  "declarationsOf endNamedProgram = [functionNamed ''program_end'']"
  by (simp add: declarationsOf.simps endNamedProgram_simps functionNamed_simps)

text \<open>
  C2 as stated fails: function names are used as labels as they are, so a program with a
  function named \<^verbatim>\<open>program_end\<close> compiles to an output with the label \<^verbatim>\<open>program_end\<close> twice,
  at the head of the function and at the end.
\<close>

theorem program_end_label_counterexample:
  "compiledLabels 255 endNamedProgram freshHeap =
     Inr [''program_end'', ''program_end-cleanup'', ''program_end'']"
  by (simp add: compiledLabels_def generateCode_eq declarationsOf_endNamedProgram
      walk_endNamedProgram generateFunctionCode_eq setupArguments_eq functionNamed_simps
      walk_emptyBlock freshHeap_def newCodeGenerator_def emitLines_def started_def
      bootstrapLines_def prologueLines_def epilogueLines_def str_def)

text \<open>
  C2, amended. Let \<open>generateCode\<close> return on an AST whose function declarations are all
  reached through \<^verbatim>\<open>children\<close> lists. With at least one declaration, the output is: the
  bootstrap (\<^verbatim>\<open>int <MAX_SCRATCH>\<close>, then \<^verbatim>\<open>store 0\<close>, between two section breaks), the lines
  of the globals, the branch \<^verbatim>\<open>b program_end\<close>, the lines of the collected functions, each
  with the lines that the walk of its body emits, a section break and the label
  \<^verbatim>\<open>program_end\<close> as the last line; no line before it is that label unless a collected
  function is named \<^verbatim>\<open>program_end\<close>. With no declaration, the run is the walk of the globals
  and nothing else: no section break and no label \<^verbatim>\<open>program_end\<close> is emitted.
\<close>

theorem bootstrap_branch_and_end_label:
  assumes run: "generateCode m ast s = Inr s'"
    and reach: "filter isDeclaration (subnodes ast) = filter isDeclaration (preorder ast)"
  shows "(filter isDeclaration (subnodes ast) \<noteq> [] \<longrightarrow>
           (\<exists>G Bs.
              outputLines (codeEmitter s') =
                outputLines (codeEmitter s) @
                [Section (Some ''Function data stack setup.''),
                 Instr (''int '' @ showNat m) (Some ''Initial stack pointer.''),
                 Instr ''store 0'' (Some ''Set stack_pointer''),
                 Section None] @
                G @ [Instr ''b program_end'' None] @
                functionsLines (paramArrays s) (tables s) (declarationsOf ast) Bs @
                [Section None, Label ''program_end'' None] \<and>
              length Bs = length (declarationsOf ast) \<and>
              list_all2 emittedByBody (declarationsOf ast) Bs \<and>
              set (declarationsOf ast) = set (filter isDeclaration (subnodes ast)) \<and>
              ''program_end'' \<notin> set (labelNames G) \<and>
              ((\<forall>f \<in> set (declarationsOf ast). name f \<noteq> Some ''program_end'') \<longrightarrow>
                 ''program_end'' \<notin>
                   set (labelNames
                     (functionsLines (paramArrays s) (tables s) (declarationsOf ast) Bs))))) \<and>
         (filter isDeclaration (subnodes ast) = [] \<longrightarrow>
            internalGenerateCode ast (started ast s) = Inr s' \<and>
            (\<exists>G. outputLines (codeEmitter s') = outputLines (codeEmitter s) @ G \<and>
               plainLines G \<and> ''program_end'' \<notin> set (labelNames G)))"
proof -
  have sets: "set (declarationsOf ast) = set (filter isDeclaration (subnodes ast))"
    unfolding declarationsOf_postorder(1) reach by (simp add: set_preorder_postorder)
  show ?thesis
  proof (intro conjI impI)
    assume "filter isDeclaration (subnodes ast) \<noteq> []"
    then have "set (filter isDeclaration (subnodes ast)) \<noteq> {}"
      by (simp only: set_empty not_False_eq_True)
    then have "set (declarationsOf ast) \<noteq> {}" unfolding sets .
    then have fs: "declarationsOf ast \<noteq> []" by auto
    from run fs obtain G Bs sG where
      out: "outputLines (codeEmitter s') =
         outputLines (codeEmitter s) @ bootstrapLines m @ G @
         [Instr ''b program_end'' None] @
         functionsLines (paramArrays s) (tables s) (declarationsOf ast) Bs @
         [Section None, Label ''program_end'' None]"
      and len: "length Bs = length (declarationsOf ast)"
      and names: "set (labelNames G @ labelNames (concat Bs)) \<subseteq>
         idNames (controlStatementId s) (controlStatementId s')"
      and bodies: "list_all2 emittedByBody (declarationsOf ast) Bs"
      by (rule generateCode_with_functions)
    from names program_end_not_control
    have nG: "''program_end'' \<notin> set (labelNames G)"
      and nB: "''program_end'' \<notin> set (labelNames (concat Bs))"
      by auto
    have nF: "''program_end'' \<notin>
        set (labelNames (functionsLines (paramArrays s) (tables s) (declarationsOf ast) Bs))"
      if h: "\<forall>f \<in> set (declarationsOf ast). name f \<noteq> Some ''program_end''"
    proof -
      define pe where "pe = ''program_end''"
      have a: "str (name f) \<noteq> pe" if "f \<in> set (declarationsOf ast)" for f
        using h that str_name [of f] unfolding pe_def by blast
      have b: "str (name f) @ ''-cleanup'' \<noteq> pe" for f
        unfolding pe_def by (rule program_end_not_cleanup)
      have c: "pe \<notin> set (labelNames (concat Bs))"
        using nB unfolding pe_def .
      have "pe \<notin> (\<lambda>f. str (name f)) ` set (declarationsOf ast) \<union>
          (\<lambda>f. str (name f) @ ''-cleanup'') ` set (declarationsOf ast) \<union>
          set (labelNames (concat Bs))"
        using a b c by blast
      then show ?thesis
        unfolding labelNames_functionsLines [OF len] pe_def .
    qed
    from out len bodies sets nG nF
    show "\<exists>G Bs.
              outputLines (codeEmitter s') =
                outputLines (codeEmitter s) @
                [Section (Some ''Function data stack setup.''),
                 Instr (''int '' @ showNat m) (Some ''Initial stack pointer.''),
                 Instr ''store 0'' (Some ''Set stack_pointer''),
                 Section None] @
                G @ [Instr ''b program_end'' None] @
                functionsLines (paramArrays s) (tables s) (declarationsOf ast) Bs @
                [Section None, Label ''program_end'' None] \<and>
              length Bs = length (declarationsOf ast) \<and>
              list_all2 emittedByBody (declarationsOf ast) Bs \<and>
              set (declarationsOf ast) = set (filter isDeclaration (subnodes ast)) \<and>
              ''program_end'' \<notin> set (labelNames G) \<and>
              ((\<forall>f \<in> set (declarationsOf ast). name f \<noteq> Some ''program_end'') \<longrightarrow>
                 ''program_end'' \<notin>
                   set (labelNames
                     (functionsLines (paramArrays s) (tables s) (declarationsOf ast) Bs)))"
      unfolding bootstrapLines_def by blast
  next
    assume none: "filter isDeclaration (subnodes ast) = []"
    with sets have fs: "declarationsOf ast = []" by simp
    from run show walk: "internalGenerateCode ast (started ast s) = Inr s'"
      by (simp add: generateCode_without_functions [OF fs])
    from walk_invariant(1) [OF walk] obtain G names where
      "outputLines (codeEmitter s') = outputLines (codeEmitter (started ast s)) @ G"
      "plainLines G" "labelNames G = names @ []"
      "set names \<subseteq> idNames (controlStatementId (started ast s)) (controlStatementId s')"
      by (rule walked_D)
    with program_end_not_control
    show "\<exists>G. outputLines (codeEmitter s') = outputLines (codeEmitter s) @ G \<and>
        plainLines G \<and> ''program_end'' \<notin> set (labelNames G)"
      by auto
  qed
qed


definition onlyGlobals :: node where
  "onlyGlobals = setChildren (Some [exprStatement ''1'']) (emptyNode ''block'')"

lemma walk_onlyGlobals:
  "internalGenerateCode onlyGlobals s =
     Inr (s\<lparr>codeEmitter :=
       \<lparr>outputLines = outputLines (codeEmitter s) @ [Instr ''int 1'' None, Instr ''pop'' None],
        stackSize = 0\<rparr>\<rparr>)"
  by (subst walk_without_visitor)
    (simp_all add: onlyGlobals_def emptyNode_def walk_exprStatement)

lemma onlyGlobals_declarations:
  "filter isDeclaration (subnodes onlyGlobals) = []"
  "filter isDeclaration (preorder onlyGlobals) = []"
  "declarationsOf onlyGlobals = []"
  by (simp_all add: subnodes.simps preorder.simps declarationsOf.simps onlyGlobals_def
      exprStatement_def emptyNode_def)

lemma onlyGlobals_runs: "\<exists>s'. generateCode 255 onlyGlobals freshHeap = Inr s'"
  by (simp add: generateCode_without_functions onlyGlobals_declarations walk_onlyGlobals)

theorem bootstrap_branch_and_end_label_witness:
  "(\<exists>s' G Bs.
      generateCode 255 nestedProgram freshHeap = Inr s' \<and>
      outputLines (codeEmitter s') =
        [Section (Some ''Function data stack setup.''),
         Instr (''int '' @ showNat 255) (Some ''Initial stack pointer.''),
         Instr ''store 0'' (Some ''Set stack_pointer''),
         Section None] @
        G @ [Instr ''b program_end'' None] @
        functionsLines (\<lambda>_. []) (\<lambda>_. [])
          [functionNamed ''inner'', outerFunction, functionNamed ''last''] Bs @
        [Section None, Label ''program_end'' None] \<and>
      length Bs = 3 \<and>
      list_all2 emittedByBody [functionNamed ''inner'', outerFunction, functionNamed ''last''] Bs \<and>
      ''program_end'' \<notin> set (labelNames G) \<and>
      ''program_end'' \<notin>
        set (labelNames (functionsLines (\<lambda>_. []) (\<lambda>_. [])
          [functionNamed ''inner'', outerFunction, functionNamed ''last''] Bs))) \<and>
   (\<exists>s'. generateCode 255 onlyGlobals freshHeap = Inr s' \<and>
      internalGenerateCode onlyGlobals (started onlyGlobals freshHeap) = Inr s' \<and>
      outputLines (codeEmitter s') = [Instr ''int 1'' None, Instr ''pop'' None])"
proof -
  have fresh: "outputLines (codeEmitter freshHeap) = []" "paramArrays freshHeap = (\<lambda>_. [])"
    "tables freshHeap = (\<lambda>_. [])"
    by (simp_all add: freshHeap_def newCodeGenerator_def)
  from programs_run(1) [of 255 freshHeap] obtain sN where
    runN: "generateCode 255 nestedProgram freshHeap = Inr sN" by blast
  have hN: "filter isDeclaration (subnodes nestedProgram) =
      filter isDeclaration (preorder nestedProgram)"
    by (simp only: source_order_of_programs)
  have namesN: "\<forall>f \<in> set (declarationsOf nestedProgram). name f \<noteq> Some ''program_end''"
    by (simp add: declarations_of_programs functionNamed_simps outerFunction_simps)
  have neN: "filter isDeclaration (subnodes nestedProgram) \<noteq> []"
    by (simp add: source_order_of_programs)
  from bootstrap_branch_and_end_label [OF runN hN, THEN conjunct1, rule_format, OF neN]
  obtain G Bs where
    o: "outputLines (codeEmitter sN) =
        outputLines (codeEmitter freshHeap) @
        [Section (Some ''Function data stack setup.''),
         Instr (''int '' @ showNat 255) (Some ''Initial stack pointer.''),
         Instr ''store 0'' (Some ''Set stack_pointer''),
         Section None] @
        G @ [Instr ''b program_end'' None] @
        functionsLines (paramArrays freshHeap) (tables freshHeap) (declarationsOf nestedProgram) Bs @
        [Section None, Label ''program_end'' None]"
    and l: "length Bs = length (declarationsOf nestedProgram)"
    and e: "list_all2 emittedByBody (declarationsOf nestedProgram) Bs"
    and g: "''program_end'' \<notin> set (labelNames G)"
    and f: "(\<forall>f \<in> set (declarationsOf nestedProgram). name f \<noteq> Some ''program_end'') \<longrightarrow>
         ''program_end'' \<notin>
           set (labelNames (functionsLines (paramArrays freshHeap) (tables freshHeap)
             (declarationsOf nestedProgram) Bs))"
    by blast
  from f namesN have f': "''program_end'' \<notin>
      set (labelNames (functionsLines (paramArrays freshHeap) (tables freshHeap)
        (declarationsOf nestedProgram) Bs))"
    by (rule mp)
  from l have l': "length Bs = 3" by (simp add: declarations_of_programs)
  note facts = o [unfolded fresh declarations_of_programs append_Nil] l'
    e [unfolded declarations_of_programs] g f' [unfolded fresh declarations_of_programs]
  have c1: "\<exists>G Bs.
      outputLines (codeEmitter sN) =
        [Section (Some ''Function data stack setup.''),
         Instr (''int '' @ showNat 255) (Some ''Initial stack pointer.''),
         Instr ''store 0'' (Some ''Set stack_pointer''),
         Section None] @
        G @ [Instr ''b program_end'' None] @
        functionsLines (\<lambda>_. []) (\<lambda>_. [])
          [functionNamed ''inner'', outerFunction, functionNamed ''last''] Bs @
        [Section None, Label ''program_end'' None] \<and>
      length Bs = 3 \<and>
      list_all2 emittedByBody [functionNamed ''inner'', outerFunction, functionNamed ''last''] Bs \<and>
      ''program_end'' \<notin> set (labelNames G) \<and>
      ''program_end'' \<notin>
        set (labelNames (functionsLines (\<lambda>_. []) (\<lambda>_. [])
          [functionNamed ''inner'', outerFunction, functionNamed ''last''] Bs))"
    by (intro exI conjI) (rule facts)+
  from onlyGlobals_runs obtain sG where
    runG: "generateCode 255 onlyGlobals freshHeap = Inr sG" by blast
  have hG: "filter isDeclaration (subnodes onlyGlobals) =
      filter isDeclaration (preorder onlyGlobals)"
    by (simp only: onlyGlobals_declarations)
  from bootstrap_branch_and_end_label [OF runG hG, THEN conjunct2]
  have walk: "internalGenerateCode onlyGlobals (started onlyGlobals freshHeap) = Inr sG"
    by (simp add: onlyGlobals_declarations)
  then have "outputLines (codeEmitter sG) = [Instr ''int 1'' None, Instr ''pop'' None]"
    by (auto simp: walk_onlyGlobals fresh)
  with c1 runN runG walk show ?thesis by blast
qed

section \<open>The labels and branches of an if-statement\<close>

text \<open>The texts of the instructions among some lines, in order.\<close>

definition instrTexts :: "line list \<Rightarrow> string list" where
  "instrTexts ls = concat (map (\<lambda>l. case l of Instr t _ \<Rightarrow> [t] | _ \<Rightarrow> []) ls)"

text \<open>The two branches that the visit of an if-statement emits, for some control id.\<close>

definition isControlBranch :: "string \<Rightarrow> bool" where
  "isControlBranch t \<longleftrightarrow> (\<exists>k. t = ''bz else_'' @ showNat k \<or> t = ''b end_'' @ showNat k)"

definition isIfLabel :: "string \<Rightarrow> bool" where
  "isIfLabel nm \<longleftrightarrow> (\<exists>k. nm = ''else_'' @ showNat k \<or> nm = ''end_'' @ showNat k)"

text \<open>
  Lines in which, for every control id, there are as many branches \<^verbatim>\<open>bz else_<k>\<close> as
  labels \<^verbatim>\<open>else_<k>\<close> and as many branches \<^verbatim>\<open>b end_<k>\<close> as labels \<^verbatim>\<open>end_<k>\<close>.
\<close>

definition matched :: "line list \<Rightarrow> bool" where
  "matched ls \<longleftrightarrow>
     (\<forall>k. count_list (instrTexts ls) (''bz else_'' @ showNat k) =
            count_list (labelNames ls) (''else_'' @ showNat k) \<and>
          count_list (instrTexts ls) (''b end_'' @ showNat k) =
            count_list (labelNames ls) (''end_'' @ showNat k))"

lemma instrTexts_simps [simp]:
  "instrTexts [] = []"
  "instrTexts (xs @ ys) = instrTexts xs @ instrTexts ys"
  "instrTexts (Instr t c # xs) = t # instrTexts xs"
  "instrTexts (Section c # xs) = instrTexts xs"
  "instrTexts (Label nm c # xs) = instrTexts xs"
  by (simp_all add: instrTexts_def)

lemma matched_Nil [simp]: "matched []"
  by (simp add: matched_def)

lemma matched_append: "matched xs \<Longrightarrow> matched ys \<Longrightarrow> matched (xs @ ys)"
  by (simp add: matched_def)

lemma matched_Instr: "\<not> isControlBranch t \<Longrightarrow> matched [Instr t c]"
  by (auto simp: matched_def isControlBranch_def)

lemma matched_Section [simp]: "matched [Section c]"
  by (simp add: matched_def)

lemma matched_Label: "\<not> isIfLabel nm \<Longrightarrow> matched [Label nm c]"
  by (auto simp: matched_def isIfLabel_def)

lemma matched_Cons_Instr: "\<not> isControlBranch t \<Longrightarrow> matched xs \<Longrightarrow> matched (Instr t c # xs)"
  using matched_append [OF matched_Instr, of t xs c] by simp

lemma matched_replicate: "\<not> isControlBranch t \<Longrightarrow> matched (replicate n (Instr t c))"
  by (induction n) (simp_all add: matched_Cons_Instr)

lemma matched_if:
  assumes "matched A" "matched B"
  shows "matched ([Instr (''bz else_'' @ showNat k) None] @ A @
     [Instr (''b end_'' @ showNat k) None, Label (''else_'' @ showNat k) None] @ B @
     [Label (''end_'' @ showNat k) None])"
  using assms by (simp add: matched_def)

lemma not_branch_literals [simp]:
  "\<not> isControlBranch (''int '' @ x)"
  "\<not> isControlBranch (''byte '' @ x)"
  "\<not> isControlBranch (''load '' @ x)"
  "\<not> isControlBranch (''store '' @ x)"
  "\<not> isControlBranch (''callsub '' @ x)"
  "\<not> isControlBranch (''itxn_field '' @ x)"
  "\<not> isControlBranch (''bz loop_end_'' @ x)"
  "\<not> isControlBranch (''b loop_start_'' @ x)"
  "\<not> isControlBranch ''load 0''"
  "\<not> isControlBranch ''int 0''"
  "\<not> isControlBranch ''store 0''"
  "\<not> isControlBranch ''+''"
  "\<not> isControlBranch ''-''"
  "\<not> isControlBranch ''loads''"
  "\<not> isControlBranch ''stores''"
  "\<not> isControlBranch ''dig 1''"
  "\<not> isControlBranch ''dup''"
  "\<not> isControlBranch ''swap''"
  "\<not> isControlBranch ''pop''"
  "\<not> isControlBranch ''return''"
  "\<not> isControlBranch ''retsub''"
  "\<not> isControlBranch ''btoi''"
  "\<not> isControlBranch ''itob''"
  "\<not> isControlBranch ''app_global_put''"
  "\<not> isControlBranch ''app_global_get''"
  "\<not> isControlBranch ''app_global_del''"
  "\<not> isControlBranch ''app_local_put''"
  "\<not> isControlBranch ''app_local_get''"
  "\<not> isControlBranch ''app_local_del''"
  "\<not> isControlBranch ''itxn_begin''"
  "\<not> isControlBranch ''itxn_submit''"
  "\<not> isControlBranch ''b program_end''"
  by (simp_all add: isControlBranch_def)

lemma not_if_label_literals [simp]:
  "\<not> isIfLabel (''loop_start_'' @ x)"
  "\<not> isIfLabel (''loop_end_'' @ x)"
  "\<not> isIfLabel ''program_end''"
  by (simp_all add: isIfLabel_def)

lemma showNat_last: "last (showNat n) = digitChar (n mod 10)"
  by (subst showNat.simps) (simp add: showNat_nonempty)

lemma digitChar_not_p: "digitChar (n mod 10) \<noteq> CHR ''p''"
proof
  assume "digitChar (n mod 10) = CHR ''p''"
  then have "of_char (digitChar (n mod 10)) = (of_char (CHR ''p'') :: nat)" by simp
  then show False by (simp add: digitChar_code)
qed

lemma cleanup_not_numbered: "x @ ''-cleanup'' \<noteq> y @ showNat n"
proof
  assume "x @ ''-cleanup'' = y @ showNat n"
  then have "last (x @ ''-cleanup'') = last (y @ showNat n)" by (rule arg_cong)
  then show False by (simp add: showNat_nonempty showNat_last digitChar_not_p [symmetric])
qed

lemma not_branch_cleanup [simp]: "\<not> isControlBranch (''b '' @ x @ ''-cleanup'')"
proof
  assume "isControlBranch (''b '' @ x @ ''-cleanup'')"
  then obtain k where "''b '' @ x @ ''-cleanup'' = ''b end_'' @ showNat k"
    by (auto simp: isControlBranch_def)
  then have "(''b '' @ x) @ ''-cleanup'' = ''b end_'' @ showNat k" by simp
  with cleanup_not_numbered show False by blast
qed

lemma not_if_label_cleanup [simp]: "\<not> isIfLabel (x @ ''-cleanup'')"
  unfolding isIfLabel_def using cleanup_not_numbered by blast


subsection \<open>Branches and labels stay matched along the walk\<close>

definition matchedRun :: "CodeGenerator \<Rightarrow> CodeGenerator \<Rightarrow> bool" where
  "matchedRun s s' \<longleftrightarrow>
     (\<exists>new. outputLines (codeEmitter s') = outputLines (codeEmitter s) @ new \<and> matched new)"

lemma matchedRun_same:
  "outputLines (codeEmitter s') = outputLines (codeEmitter s) \<Longrightarrow> matchedRun s s'"
  by (simp add: matchedRun_def)

lemma matchedRun_refl: "matchedRun s s"
  by (simp add: matchedRun_def)

lemma matchedRun_trans: "matchedRun s s1 \<Longrightarrow> matchedRun s1 s2 \<Longrightarrow> matchedRun s s2"
  unfolding matchedRun_def using matched_append by fastforce

lemma matchedRun_emit:
  "emit t a r c s = Inr s' \<Longrightarrow> \<not> isControlBranch t \<Longrightarrow> matchedRun s s'"
  by (auto simp: emit_eq matchedRun_def matched_Instr split: if_splits)

lemma matchedRun_label:
  "emitter (label nm c) s = Inr s' \<Longrightarrow> \<not> isIfLabel nm \<Longrightarrow> matchedRun s s'"
  by (auto simp: emitter_def label_def matchedRun_def matched_Label)

lemma matchedRun_popAll: "emitter popAll s = Inr s' \<Longrightarrow> matchedRun s s'"
  by (auto simp: emitter_def popAll_def matchedRun_def matched_replicate)

lemma matchedRun_seq:
  assumes "seq steps s = Inr s'"
    and "\<And>st s s'. st \<in> set steps \<Longrightarrow> st s = Inr s' \<Longrightarrow> matchedRun s s'"
  shows "matchedRun s s'"
  using assms
proof (induction steps arbitrary: s)
  case Nil
  then show ?case by (simp add: matchedRun_refl)
next
  case (Cons st steps)
  from Cons.prems(1) obtain s1 where a: "st s = Inr s1" and b: "seq steps s1 = Inr s'"
    by (auto split: sum.splits)
  from Cons.prems(2) [of st s s1] a have "matchedRun s s1" by simp
  moreover have "matchedRun s1 s'"
  proof (rule Cons.IH [OF b])
    fix st' s s' assume "st' \<in> set steps" "st' s = Inr s'"
    then show "matchedRun s s'" using Cons.prems(2) [of st' s s'] by simp
  qed
  ultimately show ?case by (rule matchedRun_trans)
qed

lemma matchedRun_emit2:
  assumes "seq [emit t a r c, emit t' a' r' c'] s = Inr s'"
    and "\<not> isControlBranch t" "\<not> isControlBranch t'"
  shows "matchedRun s s'"
  using assms(1)
proof (rule matchedRun_seq)
  fix st s s' assume "st \<in> set [emit t a r c, emit t' a' r' c']" "st s = Inr s'"
  with assms(2,3) show "matchedRun s s'" by (auto elim: matchedRun_emit)
qed

lemma matched_storeLines: "matched (storeLines sy)"
  by (simp add: storeLines_def matched_Cons_Instr matched_Instr isControlBranch_def)

lemma matched_concat_storeLines: "matched (concat (map storeLines xs))"
  by (induction xs) (simp_all add: matched_append matched_storeLines)

lemma matchedRun_numberPost: "numberPost n s = Inr s' \<Longrightarrow> matchedRun s s'"
  unfolding numberPost_def by (erule matchedRun_emit) (rule not_branch_literals)

lemma matchedRun_stringLiteralPost: "stringLiteralPost n s = Inr s' \<Longrightarrow> matchedRun s s'"
  unfolding stringLiteralPost_def by (erule matchedRun_emit) (rule not_branch_literals)

lemma matchedRun_callsub: "callsub n s = Inr s' \<Longrightarrow> matchedRun s s'"
  unfolding callsub_def by (erule matchedRun_emit) (rule not_branch_literals)

lemma matchedRun_itxn_field: "itxn_field n s = Inr s' \<Longrightarrow> matchedRun s s'"
  by (auto simp: itxn_field_def isControlBranch_def elim: matchedRun_emit
      split: option.splits list.splits)

lemma matchedRun_returnStatementPost:
  assumes run: "returnStatementPost n s = Inr s'"
  shows "matchedRun s s'"
proof (cases "inFunction s")
  case False
  with run have "emit ''return'' 0 0 None s = Inr s'"
    by (simp add: returnStatementPost_def)
  then show ?thesis by (rule matchedRun_emit) (rule not_branch_literals)
next
  case True
  show ?thesis
  proof (cases "curFunction s")
    case None
    with run True show ?thesis by (simp add: returnStatementPost_def)
  next
    case (Some f)
    with run True have "emit (''b '' @ str (name f) @ ''-cleanup'') 0 0 None s = Inr s'"
      by (simp add: returnStatementPost_def)
    then show ?thesis by (rule matchedRun_emit) (rule not_branch_cleanup)
  qed
qed

lemma matchedRun_accessVariablePost:
  assumes run: "accessVariablePost n s = Inr s'"
  shows "matchedRun s s'"
proof (cases "symbol n")
  case None
  with run show ?thesis by (simp add: accessVariablePost_def)
next
  case (Some sy)
  show ?thesis
  proof (cases "isGlobal sy")
    case True
    with run Some have "emit (''load '' @ showNat (position sy)) 1 0 None s = Inr s'"
      by (simp add: accessVariablePost_def)
    then show ?thesis by (rule matchedRun_emit) (rule not_branch_literals)
  next
    case False
    with run Some have "seq [emit ''load 0'' 1 0 None,
        emit (''int '' @ showNat (position sy)) 1 0 None,
        emit ''+'' 2 1 None, emit ''loads'' 1 1 None] s = Inr s'"
      by (simp add: accessVariablePost_def)
    then show ?thesis
      by (rule matchedRun_seq) (auto simp: isControlBranch_def elim: matchedRun_emit)
  qed
qed

lemma matchedRun_assignmentStatementPost:
  "assignmentStatementPost n s = Inr s' \<Longrightarrow> matchedRun s s'"
  by (auto simp: assignmentStatementPost_def storeSymbol_eq seq_storeSymbol matchedRun_def
      matched_storeLines matched_concat_storeLines Let_def split: option.splits)

definition operationText :: "node \<Rightarrow> string" where
  "operationText node =
     (case args node of
        None \<Rightarrow> str (opcode node)
      | Some as \<Rightarrow> str (opcode node) @ '' '' @ join '' '' (map Some as))"

lemma operationPost_text:
  "operationPost node =
     emit (operationText node)
       (case numItemsAdded node of Some a \<Rightarrow> a | None \<Rightarrow> 1)
       (case numItemsRemoved node of Some r \<Rightarrow> r | None \<Rightarrow> 2) None"
  by (simp add: operationPost_def operationText_def Let_def)

lemma matchedRun_operationPost:
  "operationPost n s = Inr s' \<Longrightarrow> \<not> isControlBranch (operationText n) \<Longrightarrow> matchedRun s s'"
  unfolding operationPost_text by (rule matchedRun_emit)


text \<open>
  An AST none of whose \<^verbatim>\<open>operation\<close> nodes renders as a branch to a label of an if-statement.
\<close>

definition cleanOps :: "node \<Rightarrow> bool" where
  "cleanOps ast \<longleftrightarrow>
     (\<forall>n \<in> set (subnodes ast). nodeType n = ''operation'' \<longrightarrow> \<not> isControlBranch (operationText n))"

lemma subnodesEach_set: "set (subnodesEach cs) = (\<Union>c \<in> set cs. set (subnodes c))"
  by (induction cs) simp_all

lemma subnodes_self: "n \<in> set (subnodes n)"
  by (subst subnodes.simps) simp

lemma subnodes_parts:
  "children n = Some cs \<Longrightarrow> c \<in> set cs \<Longrightarrow> set (subnodes c) \<subseteq> set (subnodes n)"
  "functionArgs n = Some cs \<Longrightarrow> c \<in> set cs \<Longrightarrow> set (subnodes c) \<subseteq> set (subnodes n)"
  "initializer n = Some b \<Longrightarrow> set (subnodes b) \<subseteq> set (subnodes n)"
  "ifBlock n = Some b \<Longrightarrow> set (subnodes b) \<subseteq> set (subnodes n)"
  "elseBlock n = Some b \<Longrightarrow> set (subnodes b) \<subseteq> set (subnodes n)"
  "body n = Some b \<Longrightarrow> set (subnodes b) \<subseteq> set (subnodes n)"
  by (subst (2) subnodes.simps; auto simp: subnodesEach_set)+

lemma cleanOps_sub: "cleanOps n \<Longrightarrow> set (subnodes c) \<subseteq> set (subnodes n) \<Longrightarrow> cleanOps c"
  unfolding cleanOps_def by blast

lemma matchedRun_each:
  assumes "generateEach cs s = Inr s'"
    and "\<And>c s s'. c \<in> set cs \<Longrightarrow> internalGenerateCode c s = Inr s' \<Longrightarrow> matchedRun s s'"
  shows "matchedRun s s'"
  using assms
proof (induction cs arbitrary: s)
  case Nil
  then show ?case by (simp add: matchedRun_refl)
next
  case (Cons c cs)
  from Cons.prems(1) obtain s1 where a: "internalGenerateCode c s = Inr s1"
    and b: "generateEach cs s1 = Inr s'"
    by (auto split: sum.splits)
  from Cons.prems(2) [of c s s1] a have "matchedRun s s1" by simp
  moreover have "matchedRun s1 s'"
  proof (rule Cons.IH [OF b])
    fix c' s s' assume "c' \<in> set cs" "internalGenerateCode c' s = Inr s'"
    then show "matchedRun s s'" using Cons.prems(2) [of c' s s'] by simp
  qed
  ultimately show ?case by (rule matchedRun_trans)
qed

lemma matchedRun_if:
  assumes bz: "emit (''bz else_'' @ showNat k) 0 1 None s1 = Inr s2"
    and ifB: "matchedRun s2 s3"
    and mid: "seq [emit (''b end_'' @ showNat k) 0 0 None,
                   emitter (label (''else_'' @ showNat k) None)] s3 = Inr s4"
    and elseB: "matchedRun s4 s5"
    and fin: "emitter (label (''end_'' @ showNat k) None) s5 = Inr s6"
    and s1: "outputLines (codeEmitter s1) = outputLines (codeEmitter s)"
  shows "matchedRun s s6"
proof -
  define bzI where "bzI = Instr (''bz else_'' @ showNat k) None"
  define bI where "bI = Instr (''b end_'' @ showNat k) None"
  define a where "a = Label (''else_'' @ showNat k) None"
  define b where "b = Label (''end_'' @ showNat k) None"
  from ifB obtain A where A: "outputLines (codeEmitter s3) = outputLines (codeEmitter s2) @ A"
    "matched A" unfolding matchedRun_def by blast
  from elseB obtain B where B: "outputLines (codeEmitter s5) = outputLines (codeEmitter s4) @ B"
    "matched B" unfolding matchedRun_def by blast
  have o2: "outputLines (codeEmitter s2) = outputLines (codeEmitter s1) @ [bzI]"
    using bz unfolding bzI_def by (auto simp: emit_eq split: if_splits)
  have o4: "outputLines (codeEmitter s4) = outputLines (codeEmitter s3) @ [bI, a]"
    using mid unfolding bI_def a_def
    by (auto simp: emit_eq emitter_def label_def split: if_splits)
  have o6: "outputLines (codeEmitter s6) = outputLines (codeEmitter s5) @ [b]"
    using fin unfolding b_def by (auto simp: emitter_def label_def)
  have "outputLines (codeEmitter s6) =
      outputLines (codeEmitter s) @ ([bzI] @ A @ [bI, a] @ B @ [b])"
    using s1 o2 A(1) o4 B(1) o6 by simp
  moreover have "matched ([bzI] @ A @ [bI, a] @ B @ [b])"
    unfolding bzI_def bI_def a_def b_def using A(2) B(2) by (rule matched_if)
  ultimately show ?thesis unfolding matchedRun_def by blast
qed


lemma matchedRun_after_args:
  assumes run: "(case generateArgs node s of Inl e \<Rightarrow> Inl e | Inr s1 \<Rightarrow> k s1) = Inr s'"
    and args: "\<And>s1. generateArgs node s = Inr s1 \<Longrightarrow> matchedRun s s1"
    and tail: "\<And>s1. k s1 = Inr s' \<Longrightarrow> matchedRun s1 s'"
  shows "matchedRun s s'"
proof -
  from run obtain s1 where a: "generateArgs node s = Inr s1" and b: "k s1 = Inr s'"
    by (auto split: sum.splits)
  from matchedRun_trans [OF args [OF a] tail [OF b]] show ?thesis .
qed

lemma matchedRun_whileStatementPre:
  "whileStatementPre n s = (s1, c) \<Longrightarrow> matchedRun s s1"
  by (auto simp: whileStatementPre_def Let_def label_def matchedRun_def matched_Label
      isIfLabel_def)

lemma matchedRun_builtins:
  assumes run: "builtins n s = Inr s'"
    and ar: "\<And>s s1. generateArgs n s = Inr s1 \<Longrightarrow> matchedRun s s1"
  shows "matchedRun s s'"
proof (rule builtin_cases [of "name n"])
  assume t: "name n = Some ''appGlobalPut''"
  from run show ?thesis unfolding builtins_appGlobalPut [OF t]
    apply (rule matchedRun_after_args)
     apply (erule ar)
    apply (erule matchedRun_emit2; simp)
    done
next
  assume t: "name n = Some ''appGlobalGet''"
  from run show ?thesis unfolding builtins_appGlobalGet [OF t]
    apply (rule matchedRun_after_args)
     apply (erule ar)
    apply (erule matchedRun_emit; simp)
    done
next
  assume t: "name n = Some ''appGlobalDel''"
  from run show ?thesis unfolding builtins_appGlobalDel [OF t]
    apply (rule matchedRun_after_args)
     apply (erule ar)
    apply (erule matchedRun_emit2; simp)
    done
next
  assume t: "name n = Some ''appLocalPut''"
  from run show ?thesis unfolding builtins_appLocalPut [OF t]
    apply (rule matchedRun_after_args)
     apply (erule ar)
    apply (erule matchedRun_emit2; simp)
    done
next
  assume t: "name n = Some ''appLocalGet''"
  from run show ?thesis unfolding builtins_appLocalGet [OF t]
    apply (rule matchedRun_after_args)
     apply (erule ar)
    apply (erule matchedRun_emit; simp)
    done
next
  assume t: "name n = Some ''appLocalDel''"
  from run show ?thesis unfolding builtins_appLocalDel [OF t]
    apply (rule matchedRun_after_args)
     apply (erule ar)
    apply (erule matchedRun_emit2; simp)
    done
next
  assume t: "name n = Some ''btoi''"
  from run show ?thesis unfolding builtins_btoi [OF t]
    apply (rule matchedRun_after_args)
     apply (erule ar)
    apply (erule matchedRun_emit; simp)
    done
next
  assume t: "name n = Some ''itob''"
  from run show ?thesis unfolding builtins_itob [OF t]
    apply (rule matchedRun_after_args)
     apply (erule ar)
    apply (erule matchedRun_emit; simp)
    done
next
  assume t: "name n = Some ''exit''"
  from run show ?thesis unfolding builtins_exit [OF t]
    apply (rule matchedRun_after_args)
     apply (erule ar)
    apply (erule matchedRun_emit; simp)
    done
next
  assume t: "name n = Some ''itxn_begin''"
  from run show ?thesis unfolding builtins_itxn_begin [OF t]
    by (rule matchedRun_emit2) simp_all
next
  assume t: "name n = Some ''itxn_field''"
  from run show ?thesis unfolding builtins_itxn_field [OF t]
    by (rule matchedRun_itxn_field)
next
  assume t: "name n = Some ''itxn_submit''"
  from run show ?thesis unfolding builtins_itxn_submit [OF t]
    by (rule matchedRun_emit2) simp_all
next
  assume t: "name n \<notin> set [Some ''appGlobalPut'', Some ''appGlobalGet'',
      Some ''appGlobalDel'', Some ''appLocalPut'', Some ''appLocalGet'', Some ''appLocalDel'',
      Some ''btoi'', Some ''itob'', Some ''exit'', Some ''itxn_begin'', Some ''itxn_field'',
      Some ''itxn_submit'']"
  from run have "s' = s"
    unfolding builtins_other [OF t] inheritedMember_def by (simp split: if_splits)
  then show ?thesis by (simp add: matchedRun_refl)
qed

lemma matchedRun_step:
  assumes IH: "\<And>m s s'. size m < size n \<Longrightarrow> cleanOps m \<Longrightarrow>
      internalGenerateCode m s = Inr s' \<Longrightarrow> matchedRun s s'"
    and clean: "cleanOps n"
    and run: "internalGenerateCode n s = Inr s'"
  shows "matchedRun s s'"
proof -
  have sub: "matchedRun s s'"
    if "set (subnodes b) \<subseteq> set (subnodes n)" "size b < size n"
      "internalGenerateCode b s = Inr s'" for b s s'
    using IH [OF that(2) cleanOps_sub [OF clean that(1)] that(3)] .
  have each: "matchedRun s s'"
    if cs: "children n = Some cs \<or> functionArgs n = Some cs"
      and r: "generateEach cs s = Inr s'" for cs s s'
    using r
  proof (rule matchedRun_each)
    fix c s s' assume c: "c \<in> set cs" and w: "internalGenerateCode c s = Inr s'"
    from cs c have "set (subnodes c) \<subseteq> set (subnodes n)"
      using subnodes_parts(1,2) by blast
    moreover from cs size_member [OF c] have "size c < size n"
      using size_children [of n cs] size_functionArgs [of n cs] by auto
    ultimately show "matchedRun s s'" using w by (rule sub)
  qed
  have ar: "matchedRun s s1" if "generateArgs n s = Inr s1" for s s1
  proof (cases "functionArgs n")
    case None
    with that show ?thesis by (simp add: generateArgs.simps matchedRun_refl)
  next
    case (Some as)
    with that have "generateEach as s = Inr s1" by (simp add: generateArgs.simps)
    with Some show ?thesis using each by blast
  qed
  have pre: "matchedRun s s1" if "visitorsPre n s = Inr (s1, c)" for s s1 c
    using that ar [of s s1]
    by (auto simp: visitorsPre.simps [of n] matchedRun_same matchedRun_refl resetStack_def
        matchedRun_whileStatementPre split: if_splits sum.splits)
  have post: "matchedRun s s'" if r: "visitorsPost n c s = Inr s'" for c s s'
  proof (rule nodeType_cases [of "nodeType n"])
    assume t: "nodeType n = ''number''"
    with r show ?thesis by (simp add: visitorsPost_number matchedRun_numberPost)
  next
    assume t: "nodeType n = ''string-literal''"
    with r show ?thesis by (simp add: visitorsPost_stringLiteral matchedRun_stringLiteralPost)
  next
    assume t: "nodeType n = ''operation''"
    from clean subnodes_self [of n] t have "\<not> isControlBranch (operationText n)"
      unfolding cleanOps_def by blast
    with r t show ?thesis by (simp add: visitorsPost_operation matchedRun_operationPost)
  next
    assume t: "nodeType n = ''expr-statement''"
    with r show ?thesis by (simp add: visitorsPost_exprStatement matchedRun_popAll)
  next
    assume t: "nodeType n = ''return-statement''"
    with r show ?thesis by (simp add: visitorsPost_returnStatement matchedRun_returnStatementPost)
  next
    assume t: "nodeType n = ''declare-variable''"
    from r obtain s1 where
      a: "(case initializer n of None \<Rightarrow> Inr s | Some i \<Rightarrow> internalGenerateCode i s) = Inr s1"
      and b: "emitter popAll s1 = Inr s'"
      by (simp add: visitorsPost_declareVariable [OF t] split: sum.splits)
    have "matchedRun s s1"
    proof (cases "initializer n")
      case None
      with a show ?thesis by (simp add: matchedRun_refl)
    next
      case (Some i)
      with a have "internalGenerateCode i s = Inr s1" by simp
      from sub [OF subnodes_parts(3) [OF Some] size_initializer [OF Some] this] show ?thesis .
    qed
    from matchedRun_trans [OF this matchedRun_popAll [OF b]] show ?thesis .
  next
    assume t: "nodeType n = ''access-variable''"
    with r show ?thesis by (simp add: visitorsPost_accessVariable matchedRun_accessVariablePost)
  next
    assume t: "nodeType n = ''assignment-statement''"
    with r show ?thesis
      by (simp add: visitorsPost_assignmentStatement matchedRun_assignmentStatementPost)
  next
    assume t: "nodeType n = ''if-statement''"
    define s1 where "s1 = s\<lparr>controlStatementId := controlStatementId s + 1\<rparr>"
    from r obtain s2 s3 s4 s5 where
      bz: "emit (''bz else_'' @ showNat (controlStatementId s1)) 0 1 None s1 = Inr s2"
      and ifB: "(case ifBlock n of None \<Rightarrow> Inl TypeError
                 | Some b \<Rightarrow> internalGenerateCode b s2) = Inr s3"
      and mid: "seq [emit (''b end_'' @ showNat (controlStatementId s1)) 0 0 None,
                     emitter (label (''else_'' @ showNat (controlStatementId s1)) None)] s3 = Inr s4"
      and elseB: "(case elseBlock n of None \<Rightarrow> Inr s4
                   | Some b \<Rightarrow> internalGenerateCode b s4) = Inr s5"
      and fin: "emitter (label (''end_'' @ showNat (controlStatementId s1)) None) s5 = Inr s'"
      unfolding visitorsPost_ifStatement [OF t] Let_def s1_def [symmetric]
      by (auto split: sum.splits)
    have W1: "matchedRun s2 s3"
    proof (cases "ifBlock n")
      case None
      with ifB show ?thesis by simp
    next
      case (Some b)
      with ifB have "internalGenerateCode b s2 = Inr s3" by simp
      from sub [OF subnodes_parts(4) [OF Some] size_ifBlock [OF Some] this] show ?thesis .
    qed
    have W2: "matchedRun s4 s5"
    proof (cases "elseBlock n")
      case None
      with elseB show ?thesis by (simp add: matchedRun_refl)
    next
      case (Some b)
      with elseB have "internalGenerateCode b s4 = Inr s5" by simp
      from sub [OF subnodes_parts(5) [OF Some] size_elseBlock [OF Some] this] show ?thesis .
    qed
    have o1: "outputLines (codeEmitter s1) = outputLines (codeEmitter s)" by (simp add: s1_def)
    from matchedRun_if [OF bz W1 mid W2 fin o1] show ?thesis .
  next
    assume t: "nodeType n = ''while-statement''"
    from r obtain cs s1 s2 where
      cs: "children n = Some cs"
      and bz: "emit (''bz loop_end_'' @ strNat c) 0 (if length cs > 0 then 1 else 0) None s = Inr s1"
      and bd: "(case body n of None \<Rightarrow> Inl TypeError
                | Some b \<Rightarrow> internalGenerateCode b s1) = Inr s2"
      and fin: "seq [emit (''b loop_start_'' @ strNat c) 0 0 None,
                     emitter (label (''loop_end_'' @ strNat c) None)] s2 = Inr s'"
      unfolding visitorsPost_whileStatement [OF t]
      by (auto split: sum.splits option.splits)
    have W0: "matchedRun s s1" using bz by (rule matchedRun_emit) (rule not_branch_literals)
    have W1: "matchedRun s1 s2"
    proof (cases "body n")
      case None
      with bd show ?thesis by simp
    next
      case (Some b)
      with bd have "internalGenerateCode b s1 = Inr s2" by simp
      from sub [OF subnodes_parts(6) [OF Some] size_body [OF Some] this] show ?thesis .
    qed
    have W2: "matchedRun s2 s'"
      using fin
    proof (rule matchedRun_seq)
      fix st s s'
      assume "st \<in> set [emit (''b loop_start_'' @ strNat c) 0 0 None,
          emitter (label (''loop_end_'' @ strNat c) None)]" and "st s = Inr s'"
      then consider "emit (''b loop_start_'' @ strNat c) 0 0 None s = Inr s'"
        | "emitter (label (''loop_end_'' @ strNat c) None) s = Inr s'"
        by auto
      then show "matchedRun s s'"
      proof cases
        case 1
        then show ?thesis by (rule matchedRun_emit) (rule not_branch_literals)
      next
        case 2
        then show ?thesis by (rule matchedRun_label) (rule not_if_label_literals)
      qed
    qed
    from matchedRun_trans [OF matchedRun_trans [OF W0 W1] W2] show ?thesis .
  next
    assume t: "nodeType n = ''function-call''"
    show ?thesis
    proof (cases "isBuiltin (name n)")
      case True
      with r t have "builtins n s = Inr s'" by (simp add: visitorsPost_functionCall)
      then show ?thesis using ar by (rule matchedRun_builtins)
    next
      case False
      with r t have "callsub n s = Inr s'" by (simp add: visitorsPost_functionCall)
      then show ?thesis by (rule matchedRun_callsub)
    qed
  next
    assume t: "nodeType n \<notin> set [''number'', ''string-literal'', ''operation'',
      ''expr-statement'', ''return-statement'', ''declare-variable'', ''access-variable'',
      ''assignment-statement'', ''if-statement'', ''while-statement'', ''function-call'']"
    from r visitorsPost_other [OF t] have "s' = s" by simp
    then show ?thesis by (simp add: matchedRun_refl)
  qed
  from run obtain s1 c1 s2 where
    p: "visitorsPre n s = Inr (s1, c1)"
    and ch: "(case children n of None \<Rightarrow> Inr s1 | Some cs \<Rightarrow> generateEach cs s1) = Inr s2"
    and q: "visitorsPost n c1 s2 = Inr s'"
    by (auto simp: internalGenerateCode.simps [of n] split: sum.splits prod.splits)
  have "matchedRun s1 s2"
  proof (cases "children n")
    case None
    with ch show ?thesis by (simp add: matchedRun_refl)
  next
    case (Some cs)
    with ch have "generateEach cs s1 = Inr s2" by simp
    with Some show ?thesis using each by blast
  qed
  from matchedRun_trans [OF matchedRun_trans [OF pre [OF p] this] post [OF q]] show ?thesis .
qed

lemma matchedRun_walk:
  "cleanOps n \<Longrightarrow> internalGenerateCode n s = Inr s' \<Longrightarrow> matchedRun s s'"
proof (induction n arbitrary: s s' rule: measure_induct_rule [of size])
  case (less n)
  show ?case by (rule matchedRun_step [OF less.IH less.prems])
qed


subsection \<open>The whole output\<close>

lemma subnodes_member:
  "m \<in> set (subnodes n) \<longleftrightarrow>
     m = n \<or>
     (\<exists>cs. children n = Some cs \<and> m \<in> set (subnodesEach cs)) \<or>
     (\<exists>cs. functionArgs n = Some cs \<and> m \<in> set (subnodesEach cs)) \<or>
     (\<exists>b. assignee n = Some b \<and> m \<in> set (subnodes b)) \<or>
     (\<exists>b. initializer n = Some b \<and> m \<in> set (subnodes b)) \<or>
     (\<exists>b. ifBlock n = Some b \<and> m \<in> set (subnodes b)) \<or>
     (\<exists>b. elseBlock n = Some b \<and> m \<in> set (subnodes b)) \<or>
     (\<exists>b. body n = Some b \<and> m \<in> set (subnodes b))"
  by (subst subnodes.simps) (auto split: option.splits)

lemma subnodes_trans:
  "m \<in> set (subnodes n) \<Longrightarrow> set (subnodes m) \<subseteq> set (subnodes n)"
  "m \<in> set (subnodesEach ns) \<Longrightarrow> set (subnodes m) \<subseteq> set (subnodesEach ns)"
proof (induction n and ns arbitrary: m and m rule: subnodes_subnodesEach.induct)
  case (1 n)
  from "1.prems" consider "m = n"
    | cs where "children n = Some cs" "m \<in> set (subnodesEach cs)"
    | cs where "functionArgs n = Some cs" "m \<in> set (subnodesEach cs)"
    | b where "assignee n = Some b" "m \<in> set (subnodes b)"
    | b where "initializer n = Some b" "m \<in> set (subnodes b)"
    | b where "ifBlock n = Some b" "m \<in> set (subnodes b)"
    | b where "elseBlock n = Some b" "m \<in> set (subnodes b)"
    | b where "body n = Some b" "m \<in> set (subnodes b)"
    unfolding subnodes_member [of m n] by blast
  then show ?case
  proof cases
    case 1
    then show ?thesis by simp
  next
    case 2
    from "1.IH"(1) [OF 2] 2(1) show ?thesis
      by (subst (2) subnodes.simps) auto
  next
    case 3
    from "1.IH"(2) [OF 3] 3(1) show ?thesis
      by (subst (2) subnodes.simps) auto
  next
    case 4
    from "1.IH"(3) [OF 4] 4(1) show ?thesis
      by (subst (2) subnodes.simps) auto
  next
    case 5
    from "1.IH"(4) [OF 5] 5(1) show ?thesis
      by (subst (2) subnodes.simps) auto
  next
    case 6
    from "1.IH"(5) [OF 6] 6(1) show ?thesis
      by (subst (2) subnodes.simps) auto
  next
    case 7
    from "1.IH"(6) [OF 7] 7(1) show ?thesis
      by (subst (2) subnodes.simps) auto
  next
    case 8
    from "1.IH"(7) [OF 8] 8(1) show ?thesis
      by (subst (2) subnodes.simps) auto
  qed
next
  case 2
  then show ?case by simp
next
  case (3 c cs)
  then show ?case by auto
qed

lemma postorder_subnodes:
  "set (postorder n) \<subseteq> set (subnodes n)"
  "set (postorderEach ns) \<subseteq> set (subnodesEach ns)"
proof (induction n and ns rule: postorder_postorderEach.induct)
  case (1 n)
  show ?case
  proof (cases "children n")
    case None
    then show ?thesis by (simp add: postorder.simps subnodes_self)
  next
    case (Some cs)
    with "1.IH" [OF Some] show ?thesis
      by (subst subnodes.simps) (auto simp: postorder.simps)
  qed
next
  case 2
  then show ?case by simp
next
  case (3 c cs)
  then show ?case by auto
qed

lemma cleanOps_body:
  assumes "cleanOps ast" and "f \<in> set (declarationsOf ast)" and "body f = Some b"
  shows "cleanOps b"
proof -
  from assms(2) have "f \<in> set (subnodes ast)"
    using postorder_subnodes(1) [of ast] by (auto simp: declarationsOf_postorder(1))
  from subnodes_trans(1) [OF this] subnodes_parts(6) [OF assms(3)]
  have "set (subnodes b) \<subseteq> set (subnodes ast)" by blast
  with assms(1) show ?thesis by (rule cleanOps_sub)
qed

lemma matched_Cons_Section: "matched xs \<Longrightarrow> matched (Section c # xs)"
  using matched_append [OF matched_Section, of xs c] by simp

lemma matched_Cons_Label: "\<not> isIfLabel nm \<Longrightarrow> matched xs \<Longrightarrow> matched (Label nm c # xs)"
  using matched_append [OF matched_Label, of nm xs c] by simp

lemma matched_paramLines: "matched (concat (map (paramLines ts f) ps))"
proof (induction ps)
  case Nil
  show ?case by simp
next
  case (Cons p ps)
  have "matched (paramLines ts f p)"
    by (simp add: paramLines_def matched_Cons_Instr matched_Instr isControlBranch_def
        split: option.splits)
  with Cons show ?case by (simp add: matched_append)
qed

lemma matched_functionLines:
  assumes "\<not> isIfLabel (str (name f))" and "matched B"
  shows "matched (functionLines ps ts f B)"
proof -
  have p: "matched (prologueLines ts f)"
    unfolding prologueLines_def
    by (intro matched_Cons_Label matched_Cons_Section matched_Cons_Instr assms(1))
      (simp_all add: isControlBranch_def)
  have a: "matched (case params f of None \<Rightarrow> [] | Some a \<Rightarrow> argumentLines ts f (rev (ps a)))"
    by (simp add: argumentLines_def matched_Cons_Section matched_paramLines split: option.splits)
  have e: "matched (epilogueLines f)"
    unfolding epilogueLines_def
    by (intro matched_Cons_Label matched_Cons_Section matched_Cons_Instr not_if_label_cleanup)
      (simp_all add: isControlBranch_def)
  show ?thesis
    unfolding functionLines_def
    by (intro matched_append p a e assms(2) matched_Section)
qed


lemma matched_functionsLines:
  "length Bs = length fs \<Longrightarrow>
   \<forall>f \<in> set fs. \<not> isIfLabel (str (name f)) \<Longrightarrow>
   list_all matched Bs \<Longrightarrow>
     matched (functionsLines ps ts fs Bs)"
proof (induction fs arbitrary: ps Bs)
  case Nil
  then show ?case by simp
next
  case (Cons f fs)
  from Cons.prems(1) obtain B Bs' where Bs: "Bs = B # Bs'" and len: "length Bs' = length fs"
    by (cases Bs) auto
  from Cons.prems(2,3) Bs have "matched (functionLines ps ts f B)"
    by (simp add: matched_functionLines)
  moreover from Cons.IH [OF len, of "reversedParams f ps"] Cons.prems(2,3) Bs
  have "matched (functionsLines (reversedParams f ps) ts fs Bs')" by simp
  ultimately show ?case unfolding Bs by (simp add: matched_append)
qed

lemma emittedByBody_matched:
  assumes "cleanOps ast" and "f \<in> set (declarationsOf ast)" and "emittedByBody f B"
  shows "matched B"
proof -
  from assms(3) obtain b sS sB where b: "body f = Some b"
    and w: "internalGenerateCode b sS = Inr sB"
    and o: "outputLines (codeEmitter sB) = outputLines (codeEmitter sS) @ B"
    unfolding emittedByBody_def by blast
  from matchedRun_walk [OF cleanOps_body [OF assms(1,2) b] w] o show ?thesis
    unfolding matchedRun_def by auto
qed

lemma all_bodies_matched:
  assumes "cleanOps ast" and "set fs \<subseteq> set (declarationsOf ast)"
    and "list_all2 emittedByBody fs Bs"
  shows "list_all matched Bs"
  using assms(3,2)
proof (induction rule: list_all2_induct)
  case Nil
  show ?case by simp
next
  case (Cons f fs B Bs)
  from Cons.prems have "f \<in> set (declarationsOf ast)" by simp
  from emittedByBody_matched [OF assms(1) this Cons.hyps(1)] Cons.IH Cons.prems
  show ?case by simp
qed

lemma count_functionsLines:
  "length Bs = length fs \<Longrightarrow> isIfLabel nm \<Longrightarrow>
   \<forall>f \<in> set fs. \<not> isIfLabel (str (name f)) \<Longrightarrow>
     count_list (labelNames (functionsLines ps ts fs Bs)) nm =
     count_list (labelNames (concat Bs)) nm"
proof (induction fs arbitrary: ps Bs)
  case Nil
  then show ?case by simp
next
  case (Cons f fs)
  from Cons.prems(1) obtain B Bs' where Bs: "Bs = B # Bs'" and len: "length Bs' = length fs"
    by (cases Bs) auto
  from Cons.prems(2,3) have a: "str (name f) \<noteq> nm" by auto
  from Cons.prems(2) not_if_label_cleanup [of "str (name f)"]
  have b: "str (name f) @ ''-cleanup'' \<noteq> nm" by auto
  from Cons.IH [OF len Cons.prems(2), of "reversedParams f ps"] Cons.prems(3) a b
  show ?case
    unfolding Bs by (simp add: labelNames_functionLines del: labelNames_simps(5))
qed

lemma distinct_count_le: "distinct xs \<Longrightarrow> count_list xs x \<le> 1"
  by (induction xs) (auto simp: count_list_0_iff)


lemma program_matched:
  assumes run: "generateCode m ast s = Inr s'"
    and clean: "cleanOps ast"
    and names: "\<forall>f \<in> set (declarationsOf ast). \<not> isIfLabel (str (name f))"
  shows "\<exists>new. outputLines (codeEmitter s') = outputLines (codeEmitter s) @ new \<and>
     matched new \<and> (\<forall>nm. isIfLabel nm \<longrightarrow> count_list (labelNames new) nm \<le> 1)"
proof (cases "declarationsOf ast = []")
  case True
  from run have walk: "internalGenerateCode ast (started ast s) = Inr s'"
    by (simp add: generateCode_without_functions [OF True])
  from walk_invariant(1) [OF walk] obtain new names where
    o: "outputLines (codeEmitter s') = outputLines (codeEmitter (started ast s)) @ new"
    and l: "labelNames new = names @ []" "distinct names"
    by (rule walked_D)
  from matchedRun_walk [OF clean walk] o have "matched new"
    unfolding matchedRun_def by auto
  moreover from l have "count_list (labelNames new) nm \<le> 1" for nm
    using distinct_count_le [of names nm] by simp
  ultimately show ?thesis using o by auto
next
  case False
  from run False obtain G Bs sG where
    walk: "internalGenerateCode ast (emitLines (bootstrapLines m) 0 (started ast s)) = Inr sG"
    and oG: "outputLines (codeEmitter sG) = outputLines (codeEmitter s) @ bootstrapLines m @ G"
    and out: "outputLines (codeEmitter s') =
       outputLines (codeEmitter s) @ bootstrapLines m @ G @
       [Instr ''b program_end'' None] @
       functionsLines (paramArrays s) (tables s) (declarationsOf ast) Bs @
       [Section None, Label ''program_end'' None]"
    and len: "length Bs = length (declarationsOf ast)"
    and dist: "distinct (labelNames G @ labelNames (concat Bs))"
    and bodies: "list_all2 emittedByBody (declarationsOf ast) Bs"
    by (rule generateCode_with_functions)
  define F where "F = functionsLines (paramArrays s) (tables s) (declarationsOf ast) Bs"
  have mB: "matched (bootstrapLines m)"
    unfolding bootstrapLines_def
    by (intro matched_Cons_Section matched_Cons_Instr) (simp_all add: isControlBranch_def)
  from matchedRun_walk [OF clean walk] oG have mG: "matched G"
    unfolding matchedRun_def by (auto simp: emitLines_def)
  from all_bodies_matched [OF clean order_refl bodies]
  have mF: "matched F"
    unfolding F_def using len names by (intro matched_functionsLines)
  have mE: "matched [Instr ''b program_end'' None]"
    "matched [Section None, Label ''program_end'' None]"
    by (simp_all add: matched_Instr matched_Cons_Section matched_Label)
  have m: "matched (bootstrapLines m @ G @ [Instr ''b program_end'' None] @ F @
      [Section None, Label ''program_end'' None])"
    by (intro matched_append mB mG mE mF)
  have c: "count_list (labelNames (bootstrapLines m @ G @ [Instr ''b program_end'' None] @ F @
      [Section None, Label ''program_end'' None])) nm \<le> 1" if nm: "isIfLabel nm" for nm
  proof -
    from nm not_if_label_literals(3) have pe: "''program_end'' \<noteq> nm" by auto
    have "count_list (labelNames F) nm = count_list (labelNames (concat Bs)) nm"
      unfolding F_def using len nm names by (rule count_functionsLines)
    moreover from dist have "count_list (labelNames G @ labelNames (concat Bs)) nm \<le> 1"
      by (rule distinct_count_le)
    ultimately show ?thesis using pe by (simp add: bootstrapLines_def)
  qed
  from out m c show ?thesis unfolding F_def by blast
qed


subsection \<open>The visit of an if-statement\<close>

text \<open>The lines that some walk of a node emits.\<close>

definition emittedByWalk :: "node \<Rightarrow> line list \<Rightarrow> bool" where
  "emittedByWalk b ls \<longleftrightarrow>
     (\<exists>sA sA'. internalGenerateCode b sA = Inr sA' \<and>
        outputLines (codeEmitter sA') = outputLines (codeEmitter sA) @ ls)"

lemma if_visit_lines:
  assumes t: "nodeType n = ''if-statement''" and r: "visitorsPost n cid s = Inr s'"
  obtains b A B where
    "ifBlock n = Some b" "emittedByWalk b A"
    "case elseBlock n of None \<Rightarrow> B = [] | Some e \<Rightarrow> emittedByWalk e B"
    "outputLines (codeEmitter s') =
       outputLines (codeEmitter s) @
       [Instr (''bz else_'' @ showNat (controlStatementId s + 1)) None] @ A @
       [Instr (''b end_'' @ showNat (controlStatementId s + 1)) None,
        Label (''else_'' @ showNat (controlStatementId s + 1)) None] @ B @
       [Label (''end_'' @ showNat (controlStatementId s + 1)) None]"
    "''else_'' @ showNat (controlStatementId s + 1) \<notin> set (labelNames (A @ B))"
    "''end_'' @ showNat (controlStatementId s + 1) \<notin> set (labelNames (A @ B))"
    "controlStatementId s + 1 \<le> controlStatementId s'"
proof -
  define k where "k = controlStatementId s + 1"
  define s1 where "s1 = s\<lparr>controlStatementId := controlStatementId s + 1\<rparr>"
  have c1: "controlStatementId s1 = k" by (simp add: s1_def k_def)
  from r obtain s2 s3 s4 s5 where
    bz: "emit (''bz else_'' @ showNat (controlStatementId s1)) 0 1 None s1 = Inr s2"
    and ifB: "(case ifBlock n of None \<Rightarrow> Inl TypeError
               | Some b \<Rightarrow> internalGenerateCode b s2) = Inr s3"
    and mid: "seq [emit (''b end_'' @ showNat (controlStatementId s1)) 0 0 None,
                   emitter (label (''else_'' @ showNat (controlStatementId s1)) None)] s3 = Inr s4"
    and elseB: "(case elseBlock n of None \<Rightarrow> Inr s4
                 | Some b \<Rightarrow> internalGenerateCode b s4) = Inr s5"
    and fin: "emitter (label (''end_'' @ showNat (controlStatementId s1)) None) s5 = Inr s'"
    unfolding visitorsPost_ifStatement [OF t] Let_def s1_def [symmetric]
    by (auto split: sum.splits)
  define bzI where "bzI = Instr (''bz else_'' @ showNat k) None"
  define bI where "bI = Instr (''b end_'' @ showNat k) None"
  define a where "a = ''else_'' @ showNat k"
  define e where "e = ''end_'' @ showNat k"
  have ae: "a \<in> set (controlLabels k)" "e \<in> set (controlLabels k)"
    by (simp_all add: a_def e_def controlLabels_def)
  have o2: "outputLines (codeEmitter s2) = outputLines (codeEmitter s) @ [bzI]"
    and c2: "controlStatementId s2 = k"
    using bz unfolding c1 bzI_def by (auto simp: emit_eq s1_def k_def split: if_splits)
  from ifB obtain b where b: "ifBlock n = Some b" and wA: "internalGenerateCode b s2 = Inr s3"
    by (cases "ifBlock n") auto
  from walk_invariant(1) [OF wA] obtain A namesA where
    oA: "outputLines (codeEmitter s3) = outputLines (codeEmitter s2) @ A"
    and lA: "labelNames A = namesA @ []"
      "set namesA \<subseteq> idNames (controlStatementId s2) (controlStatementId s3)"
    and cA: "controlStatementId s2 \<le> controlStatementId s3"
    by (rule walked_D)
  have o4: "outputLines (codeEmitter s4) = outputLines (codeEmitter s3) @ [bI, Label a None]"
    and c4: "controlStatementId s4 = controlStatementId s3"
    using mid unfolding c1 bI_def a_def
    by (auto simp: emit_eq emitter_def label_def split: if_splits)
  have "\<exists>B namesB. outputLines (codeEmitter s5) = outputLines (codeEmitter s4) @ B \<and>
      labelNames B = namesB \<and>
      set namesB \<subseteq> idNames (controlStatementId s4) (controlStatementId s5) \<and>
      controlStatementId s4 \<le> controlStatementId s5 \<and>
      (case elseBlock n of None \<Rightarrow> B = [] | Some e \<Rightarrow> emittedByWalk e B)"
  proof (cases "elseBlock n")
    case None
    with elseB show ?thesis by simp
  next
    case (Some eb)
    with elseB have wB: "internalGenerateCode eb s4 = Inr s5" by simp
    from walk_invariant(1) [OF wB] obtain B namesB where
      "outputLines (codeEmitter s5) = outputLines (codeEmitter s4) @ B"
      "labelNames B = namesB @ []"
      "set namesB \<subseteq> idNames (controlStatementId s4) (controlStatementId s5)"
      "controlStatementId s4 \<le> controlStatementId s5"
      by (rule walked_D)
    with wB Some show ?thesis unfolding emittedByWalk_def by auto
  qed
  then obtain B where
    oB: "outputLines (codeEmitter s5) = outputLines (codeEmitter s4) @ B"
    and lB: "set (labelNames B) \<subseteq> idNames (controlStatementId s4) (controlStatementId s5)"
    and cB: "controlStatementId s4 \<le> controlStatementId s5"
    and eB: "case elseBlock n of None \<Rightarrow> B = [] | Some e \<Rightarrow> emittedByWalk e B"
    by blast
  have o6: "outputLines (codeEmitter s') = outputLines (codeEmitter s5) @ [Label e None]"
    and c6: "controlStatementId s' = controlStatementId s5"
    using fin unfolding c1 e_def by (auto simp: emitter_def label_def)
  have k4: "k \<le> controlStatementId s4" using cA c2 c4 by simp
  have nA: "a \<notin> set (labelNames A)" "e \<notin> set (labelNames A)"
    using lA idNames_notin [OF order_refl ae(1), of "controlStatementId s3"]
      idNames_notin [OF order_refl ae(2), of "controlStatementId s3"] c2 by auto
  have nB: "a \<notin> set (labelNames B)" "e \<notin> set (labelNames B)"
    using lB idNames_notin [OF k4 ae(1), of "controlStatementId s5"]
      idNames_notin [OF k4 ae(2), of "controlStatementId s5"] by auto
  show thesis
  proof (rule that [of b A B])
    show "ifBlock n = Some b" by (rule b)
    show "emittedByWalk b A" unfolding emittedByWalk_def using wA oA by blast
    show "case elseBlock n of None \<Rightarrow> B = [] | Some e \<Rightarrow> emittedByWalk e B" by (rule eB)
    show "outputLines (codeEmitter s') =
       outputLines (codeEmitter s) @
       [Instr (''bz else_'' @ showNat (controlStatementId s + 1)) None] @ A @
       [Instr (''b end_'' @ showNat (controlStatementId s + 1)) None,
        Label (''else_'' @ showNat (controlStatementId s + 1)) None] @ B @
       [Label (''end_'' @ showNat (controlStatementId s + 1)) None]"
      using o2 oA o4 oB o6 unfolding bzI_def bI_def a_def e_def k_def by simp
    show "''else_'' @ showNat (controlStatementId s + 1) \<notin> set (labelNames (A @ B))"
      using nA(1) nB(1) unfolding a_def k_def by simp
    show "''end_'' @ showNat (controlStatementId s + 1) \<notin> set (labelNames (A @ B))"
      using nA(2) nB(2) unfolding e_def k_def by simp
    show "controlStatementId s + 1 \<le> controlStatementId s'"
      using k4 cB c6 unfolding k_def by simp
  qed
qed


subsection \<open>Programs with an if-statement\<close>

definition blockOf :: "string \<Rightarrow> node" where
  "blockOf v = setChildren (Some [exprStatement v]) (emptyNode ''block'')"

definition ifElse :: node where
  "ifElse =
     setElseBlock (Some (blockOf ''3''))
       (setIfBlock (Some (blockOf ''2''))
          (setChildren (Some [numberOne]) (emptyNode ''if-statement'')))"

definition ifElseProgram :: node where
  "ifElseProgram = setChildren (Some [ifElse]) (emptyNode ''block'')"

definition elseNamedProgram :: node where
  "elseNamedProgram =
     setChildren (Some [ifElse, functionNamed ''else_1'']) (emptyNode ''block'')"

definition branchOperation :: node where
  "branchOperation =
     Node ''operation'' None None None (Some ''bz'') (Some [''else_1'']) (Some 0) (Some 0) None
       None None None None None None None None None"

definition branchOperationProgram :: node where
  "branchOperationProgram = setChildren (Some [branchOperation, ifElse]) (emptyNode ''block'')"

definition compiledInstrs :: "nat \<Rightarrow> node \<Rightarrow> CodeGenerator \<Rightarrow> error + string list" where
  "compiledInstrs m ast s =
     (case generateCode m ast s of
        Inl e \<Rightarrow> Inl e
      | Inr s' \<Rightarrow> Inr (instrTexts (outputLines (codeEmitter s'))))"

lemmas if_example_defs = ifElse_def blockOf_def exprStatement_def numberOne_def emptyNode_def

lemma walk_ifElse:
  "internalGenerateCode ifElse s =
     Inr (s\<lparr>controlStatementId := controlStatementId s + 1,
            codeEmitter :=
       \<lparr>outputLines = outputLines (codeEmitter s) @
          [Instr ''int 1'' None,
           Instr (''bz else_'' @ showNat (controlStatementId s + 1)) None,
           Instr ''int 2'' None, Instr ''pop'' None,
           Instr (''b end_'' @ showNat (controlStatementId s + 1)) None,
           Label (''else_'' @ showNat (controlStatementId s + 1)) None,
           Instr ''int 3'' None, Instr ''pop'' None,
           Label (''end_'' @ showNat (controlStatementId s + 1)) None],
        stackSize = 0\<rparr>\<rparr>)"
  by (simp add: if_example_defs internalGenerateCode.simps visitorsPre.simps visitorsPost.simps
      numberPost_def emit_eq emitter_def label_def popAll_def resetStack_def Let_def str_def)


lemma walk_branchOperation:
  "internalGenerateCode branchOperation s =
     Inr (s\<lparr>codeEmitter :=
       \<lparr>outputLines = outputLines (codeEmitter s) @ [Instr ''bz else_1'' None],
        stackSize = stackSize (codeEmitter s)\<rparr>\<rparr>)"
  by (simp add: branchOperation_def internalGenerateCode.simps visitorsPre.simps
      visitorsPost.simps operationPost_def emit_eq Let_def str_def)

lemma program_children:
  "nodeType ifElseProgram = ''block''" "children ifElseProgram = Some [ifElse]"
  "nodeType elseNamedProgram = ''block''"
  "children elseNamedProgram = Some [ifElse, functionNamed ''else_1'']"
  "nodeType branchOperationProgram = ''block''"
  "children branchOperationProgram = Some [branchOperation, ifElse]"
  by (simp_all add: ifElseProgram_def elseNamedProgram_def branchOperationProgram_def
      emptyNode_def)

lemma ifElse_simps: "nodeType ifElse = ''if-statement''" "children ifElse = Some [numberOne]"
  by (simp_all add: if_example_defs)

lemma declarations_of_if_programs:
  "declarationsOf ifElseProgram = []"
  "declarationsOf elseNamedProgram = [functionNamed ''else_1'']"
  "declarationsOf branchOperationProgram = []"
  by (simp_all add: declarationsOf.simps program_children ifElse_simps functionNamed_simps
      numberOne_def branchOperation_def emptyNode_def)

lemma walk_if_programs:
  "internalGenerateCode ifElseProgram s = internalGenerateCode ifElse s"
  "internalGenerateCode elseNamedProgram s = internalGenerateCode ifElse s"
  "internalGenerateCode branchOperationProgram s =
     (case internalGenerateCode branchOperation s of
        Inl e \<Rightarrow> Inl e | Inr s1 \<Rightarrow> internalGenerateCode ifElse s1)"
  by (subst walk_without_visitor;
      simp add: program_children walk_ifElse walk_functionNamed walk_branchOperation)+

text \<open>
  C7 as stated fails. Function names are used as labels as they are: with a function named
  \<^verbatim>\<open>else_1\<close> the output has the label \<^verbatim>\<open>else_1\<close> twice. And an \<^verbatim>\<open>operation\<close> node is emitted
  as its opcode and arguments say: with the opcode \<^verbatim>\<open>bz\<close> and the argument \<^verbatim>\<open>else_1\<close> the
  output has the instruction \<^verbatim>\<open>bz else_1\<close> twice.
\<close>

theorem if_labels_counterexample:
  "compiledLabels 255 elseNamedProgram freshHeap =
     Inr [''else_1'', ''end_1'', ''else_1'', ''else_1-cleanup'', ''program_end''] \<and>
   compiledInstrs 255 branchOperationProgram freshHeap =
     Inr [''bz else_1'', ''int 1'', ''bz else_1'', ''int 2'', ''pop'', ''b end_1'', ''int 3'',
          ''pop'']"
  by (simp add: compiledLabels_def compiledInstrs_def generateCode_eq
      declarations_of_if_programs walk_if_programs walk_ifElse walk_branchOperation
      generateFunctionCode_eq setupArguments_eq functionNamed_simps walk_emptyBlock
      freshHeap_def newCodeGenerator_def emitLines_def started_def bootstrapLines_def
      prologueLines_def epilogueLines_def str_def showNat_1)


text \<open>
  C7, amended. The visit of an if-statement mints the control id \<open>k\<close>, one more than the
  counter, and emits, in this order: \<^verbatim>\<open>bz else_<k>\<close>, the lines of the walk of the ifBlock,
  \<^verbatim>\<open>b end_<k>\<close>, the label \<^verbatim>\<open>else_<k>\<close>, the lines of the walk of the elseBlock when there is
  one, and the label \<^verbatim>\<open>end_<k>\<close>; neither label is among the labels of the two blocks. In
  the output of a run of \<open>generateCode\<close> on an AST in which no \<^verbatim>\<open>operation\<close> node renders
  as such a branch and no collected function is named like such a label, no label
  \<^verbatim>\<open>else_<k>\<close> or \<^verbatim>\<open>end_<k>\<close> occurs twice, and there are as many instructions
  \<^verbatim>\<open>bz else_<k>\<close> as labels \<^verbatim>\<open>else_<k>\<close> and as many \<^verbatim>\<open>b end_<k>\<close> as labels \<^verbatim>\<open>end_<k>\<close>.
\<close>

theorem if_statement_labels_and_branches:
  "(nodeType n = ''if-statement'' \<and> visitorsPost n cid s = Inr s' \<longrightarrow>
      (\<exists>b A B.
         ifBlock n = Some b \<and> emittedByWalk b A \<and>
         (case elseBlock n of None \<Rightarrow> B = [] | Some e \<Rightarrow> emittedByWalk e B) \<and>
         outputLines (codeEmitter s') =
           outputLines (codeEmitter s) @
           [Instr (''bz else_'' @ showNat (controlStatementId s + 1)) None] @ A @
           [Instr (''b end_'' @ showNat (controlStatementId s + 1)) None,
            Label (''else_'' @ showNat (controlStatementId s + 1)) None] @ B @
           [Label (''end_'' @ showNat (controlStatementId s + 1)) None] \<and>
         ''else_'' @ showNat (controlStatementId s + 1) \<notin> set (labelNames (A @ B)) \<and>
         ''end_'' @ showNat (controlStatementId s + 1) \<notin> set (labelNames (A @ B)) \<and>
         controlStatementId s + 1 \<le> controlStatementId s')) \<and>
   (generateCode m ast g = Inr g' \<and> cleanOps ast \<and>
    (\<forall>f \<in> set (declarationsOf ast). \<not> isIfLabel (str (name f))) \<longrightarrow>
      (\<exists>new.
         outputLines (codeEmitter g') = outputLines (codeEmitter g) @ new \<and>
         (\<forall>k. count_list (labelNames new) (''else_'' @ showNat k) \<le> 1 \<and>
              count_list (labelNames new) (''end_'' @ showNat k) \<le> 1 \<and>
              count_list (instrTexts new) (''bz else_'' @ showNat k) =
                count_list (labelNames new) (''else_'' @ showNat k) \<and>
              count_list (instrTexts new) (''b end_'' @ showNat k) =
                count_list (labelNames new) (''end_'' @ showNat k))))"
proof (intro conjI impI)
  assume "nodeType n = ''if-statement'' \<and> visitorsPost n cid s = Inr s'"
  then have t: "nodeType n = ''if-statement''" and r: "visitorsPost n cid s = Inr s'"
    by blast+
  from t r obtain b A B where
    "ifBlock n = Some b" "emittedByWalk b A"
    "case elseBlock n of None \<Rightarrow> B = [] | Some e \<Rightarrow> emittedByWalk e B"
    "outputLines (codeEmitter s') =
       outputLines (codeEmitter s) @
       [Instr (''bz else_'' @ showNat (controlStatementId s + 1)) None] @ A @
       [Instr (''b end_'' @ showNat (controlStatementId s + 1)) None,
        Label (''else_'' @ showNat (controlStatementId s + 1)) None] @ B @
       [Label (''end_'' @ showNat (controlStatementId s + 1)) None]"
    "''else_'' @ showNat (controlStatementId s + 1) \<notin> set (labelNames (A @ B))"
    "''end_'' @ showNat (controlStatementId s + 1) \<notin> set (labelNames (A @ B))"
    "controlStatementId s + 1 \<le> controlStatementId s'"
    by (rule if_visit_lines)
  then show "\<exists>b A B.
         ifBlock n = Some b \<and> emittedByWalk b A \<and>
         (case elseBlock n of None \<Rightarrow> B = [] | Some e \<Rightarrow> emittedByWalk e B) \<and>
         outputLines (codeEmitter s') =
           outputLines (codeEmitter s) @
           [Instr (''bz else_'' @ showNat (controlStatementId s + 1)) None] @ A @
           [Instr (''b end_'' @ showNat (controlStatementId s + 1)) None,
            Label (''else_'' @ showNat (controlStatementId s + 1)) None] @ B @
           [Label (''end_'' @ showNat (controlStatementId s + 1)) None] \<and>
         ''else_'' @ showNat (controlStatementId s + 1) \<notin> set (labelNames (A @ B)) \<and>
         ''end_'' @ showNat (controlStatementId s + 1) \<notin> set (labelNames (A @ B)) \<and>
         controlStatementId s + 1 \<le> controlStatementId s'"
    by blast
next
  assume h: "generateCode m ast g = Inr g' \<and> cleanOps ast \<and>
    (\<forall>f \<in> set (declarationsOf ast). \<not> isIfLabel (str (name f)))"
  then have run: "generateCode m ast g = Inr g'" and clean: "cleanOps ast"
    and names: "\<forall>f \<in> set (declarationsOf ast). \<not> isIfLabel (str (name f))"
    by blast+
  from program_matched [OF run clean names] obtain new where
    o: "outputLines (codeEmitter g') = outputLines (codeEmitter g) @ new"
    and m: "matched new"
    and c: "\<forall>nm. isIfLabel nm \<longrightarrow> count_list (labelNames new) nm \<le> 1"
    by blast
  have "count_list (labelNames new) (''else_'' @ showNat k) \<le> 1 \<and>
      count_list (labelNames new) (''end_'' @ showNat k) \<le> 1 \<and>
      count_list (instrTexts new) (''bz else_'' @ showNat k) =
        count_list (labelNames new) (''else_'' @ showNat k) \<and>
      count_list (instrTexts new) (''b end_'' @ showNat k) =
        count_list (labelNames new) (''end_'' @ showNat k)" for k
  proof -
    have "isIfLabel (''else_'' @ showNat k)" "isIfLabel (''end_'' @ showNat k)"
      unfolding isIfLabel_def by blast+
    with c m show ?thesis unfolding matched_def by blast
  qed
  with o show "\<exists>new.
         outputLines (codeEmitter g') = outputLines (codeEmitter g) @ new \<and>
         (\<forall>k. count_list (labelNames new) (''else_'' @ showNat k) \<le> 1 \<and>
              count_list (labelNames new) (''end_'' @ showNat k) \<le> 1 \<and>
              count_list (instrTexts new) (''bz else_'' @ showNat k) =
                count_list (labelNames new) (''else_'' @ showNat k) \<and>
              count_list (instrTexts new) (''b end_'' @ showNat k) =
                count_list (labelNames new) (''end_'' @ showNat k))"
    by blast
qed


lemma cleanOps_ifElseProgram: "cleanOps ifElseProgram"
  by (simp add: cleanOps_def subnodes.simps ifElseProgram_def if_example_defs)

lemma post_ifElse:
  "visitorsPost ifElse None oneValueOnStack =
     Inr (oneValueOnStack\<lparr>controlStatementId := 1,
            codeEmitter :=
       \<lparr>outputLines =
          [Instr ''int 7'' None, Instr ''bz else_1'' None, Instr ''int 2'' None,
           Instr ''pop'' None, Instr ''b end_1'' None, Label ''else_1'' None,
           Instr ''int 3'' None, Instr ''pop'' None, Label ''end_1'' None],
        stackSize = 0\<rparr>\<rparr>)"
  by (simp add: if_example_defs internalGenerateCode.simps visitorsPre.simps visitorsPost.simps
      numberPost_def emit_eq emitter_def label_def popAll_def resetStack_def Let_def str_def
      oneValueOnStack_def newCodeGenerator_def showNat_1)

lemma generate_ifElseProgram:
  "generateCode 255 ifElseProgram freshHeap =
     Inr (freshHeap\<lparr>controlStatementId := 1,
            codeEmitter :=
       \<lparr>outputLines =
          [Instr ''int 1'' None, Instr ''bz else_1'' None, Instr ''int 2'' None,
           Instr ''pop'' None, Instr ''b end_1'' None, Label ''else_1'' None,
           Instr ''int 3'' None, Instr ''pop'' None, Label ''end_1'' None],
        stackSize = 0\<rparr>\<rparr>)"
  by (simp add: generateCode_without_functions declarations_of_if_programs walk_if_programs
      walk_ifElse started_def freshHeap_def newCodeGenerator_def showNat_1)

theorem if_statement_labels_and_branches_witness:
  "(\<exists>s' A B.
      visitorsPost ifElse None oneValueOnStack = Inr s' \<and>
      emittedByWalk (blockOf ''2'') A \<and> emittedByWalk (blockOf ''3'') B \<and>
      outputLines (codeEmitter s') =
        [Instr ''int 7'' None] @ [Instr ''bz else_1'' None] @ A @
        [Instr ''b end_1'' None, Label ''else_1'' None] @ B @ [Label ''end_1'' None] \<and>
      outputLines (codeEmitter s') =
        [Instr ''int 7'' None, Instr ''bz else_1'' None, Instr ''int 2'' None,
         Instr ''pop'' None, Instr ''b end_1'' None, Label ''else_1'' None,
         Instr ''int 3'' None, Instr ''pop'' None, Label ''end_1'' None]) \<and>
   (\<exists>g'. generateCode 255 ifElseProgram freshHeap = Inr g' \<and>
      outputLines (codeEmitter g') =
        [Instr ''int 1'' None, Instr ''bz else_1'' None, Instr ''int 2'' None,
         Instr ''pop'' None, Instr ''b end_1'' None, Label ''else_1'' None,
         Instr ''int 3'' None, Instr ''pop'' None, Label ''end_1'' None] \<and>
      count_list (labelNames (outputLines (codeEmitter g'))) ''else_1'' = 1 \<and>
      count_list (labelNames (outputLines (codeEmitter g'))) ''end_1'' = 1 \<and>
      count_list (instrTexts (outputLines (codeEmitter g'))) ''bz else_1'' = 1 \<and>
      count_list (instrTexts (outputLines (codeEmitter g'))) ''b end_1'' = 1)"
proof -
  obtain s' where post: "visitorsPost ifElse None oneValueOnStack = Inr s'"
    and outS: "outputLines (codeEmitter s') =
        [Instr ''int 7'' None, Instr ''bz else_1'' None, Instr ''int 2'' None,
         Instr ''pop'' None, Instr ''b end_1'' None, Label ''else_1'' None,
         Instr ''int 3'' None, Instr ''pop'' None, Label ''end_1'' None]"
    by (simp add: post_ifElse)
  have st: "outputLines (codeEmitter oneValueOnStack) = [Instr ''int 7'' None]"
    "controlStatementId oneValueOnStack = 0"
    by (simp_all add: oneValueOnStack_def newCodeGenerator_def)
  have blocks: "ifBlock ifElse = Some (blockOf ''2'')" "elseBlock ifElse = Some (blockOf ''3'')"
    by (simp_all add: ifElse_def emptyNode_def)
  from if_statement_labels_and_branches [of ifElse None oneValueOnStack s', THEN conjunct1,
      rule_format, OF conjI [OF ifElse_simps(1) post]]
  obtain A B where
    "emittedByWalk (blockOf ''2'') A" "emittedByWalk (blockOf ''3'') B"
    "outputLines (codeEmitter s') =
        [Instr ''int 7'' None] @ [Instr ''bz else_1'' None] @ A @
        [Instr ''b end_1'' None, Label ''else_1'' None] @ B @ [Label ''end_1'' None]"
    by (auto simp: blocks st showNat_1)
  with post outS have c1: "\<exists>s' A B.
      visitorsPost ifElse None oneValueOnStack = Inr s' \<and>
      emittedByWalk (blockOf ''2'') A \<and> emittedByWalk (blockOf ''3'') B \<and>
      outputLines (codeEmitter s') =
        [Instr ''int 7'' None] @ [Instr ''bz else_1'' None] @ A @
        [Instr ''b end_1'' None, Label ''else_1'' None] @ B @ [Label ''end_1'' None] \<and>
      outputLines (codeEmitter s') =
        [Instr ''int 7'' None, Instr ''bz else_1'' None, Instr ''int 2'' None,
         Instr ''pop'' None, Instr ''b end_1'' None, Label ''else_1'' None,
         Instr ''int 3'' None, Instr ''pop'' None, Label ''end_1'' None]"
    by blast
  obtain g' where run: "generateCode 255 ifElseProgram freshHeap = Inr g'"
    and outG: "outputLines (codeEmitter g') =
        [Instr ''int 1'' None, Instr ''bz else_1'' None, Instr ''int 2'' None,
         Instr ''pop'' None, Instr ''b end_1'' None, Label ''else_1'' None,
         Instr ''int 3'' None, Instr ''pop'' None, Label ''end_1'' None]"
    by (simp add: generate_ifElseProgram)
  have fresh: "outputLines (codeEmitter freshHeap) = []"
    by (simp add: freshHeap_def newCodeGenerator_def)
  have names: "\<forall>f \<in> set (declarationsOf ifElseProgram). \<not> isIfLabel (str (name f))"
    by (simp add: declarations_of_if_programs)
  from if_statement_labels_and_branches [of _ _ _ _ 255 ifElseProgram freshHeap g',
      THEN conjunct2, rule_format, OF conjI [OF run conjI [OF cleanOps_ifElseProgram names]]]
  obtain new where n: "outputLines (codeEmitter g') = new"
    and c: "\<forall>k. count_list (labelNames new) (''else_'' @ showNat k) \<le> 1 \<and>
              count_list (labelNames new) (''end_'' @ showNat k) \<le> 1 \<and>
              count_list (instrTexts new) (''bz else_'' @ showNat k) =
                count_list (labelNames new) (''else_'' @ showNat k) \<and>
              count_list (instrTexts new) (''b end_'' @ showNat k) =
                count_list (labelNames new) (''end_'' @ showNat k)"
    by (auto simp: fresh)
  have l: "count_list (labelNames (outputLines (codeEmitter g'))) ''else_1'' = 1"
    "count_list (labelNames (outputLines (codeEmitter g'))) ''end_1'' = 1"
    by (simp_all add: outG)
  from c [rule_format, of 1] have
    "count_list (instrTexts new) ''bz else_1'' = count_list (labelNames new) ''else_1''"
    "count_list (instrTexts new) ''b end_1'' = count_list (labelNames new) ''end_1''"
    by (simp_all add: showNat_1)
  with l have i: "count_list (instrTexts (outputLines (codeEmitter g'))) ''bz else_1'' = 1"
    "count_list (instrTexts (outputLines (codeEmitter g'))) ''b end_1'' = 1"
    unfolding n by simp_all
  from c1 run outG l i show ?thesis by blast
qed

end
